theory Spec2Isabelle
  imports Main "HOL-Library.Word"
begin

section \<open>Text and the characters the program names\<close>

text \<open>
  A Python \<open>str\<close> is a sequence of Unicode code points. Paths, patterns, file
  contents and the output text all have this one type, so that they can be
  concatenated as the program concatenates them.
\<close>

type_synonym pystr = "nat list"

definition str :: "string \<Rightarrow> pystr" where
  "str s = map of_char s"

definition newline :: nat where "newline = 10"
definition cr :: nat where "cr = 13"
definition bang :: nat where "bang = 33"
definition hash :: nat where "hash = 35"
definition star :: nat where "star = 42"
definition hyphen :: nat where "hyphen = 45"
definition slash :: nat where "slash = 47"
definition qmark :: nat where "qmark = 63"
definition lbrack :: nat where "lbrack = 91"
definition rbrack :: nat where "rbrack = 93"

lemmas char_defs =
  newline_def cr_def bang_def hash_def star_def hyphen_def slash_def qmark_def
  lbrack_def rbrack_def

section \<open>The library call \<open>fnmatch.fnmatch\<close>\<close>

text \<open>
  \<open>fnmatch.fnmatch(name, pat)\<close> normalises the case of both arguments with
  \<open>os.path.normcase\<close> (the identity on POSIX, where the script runs by its
  \<open>#!/usr/bin/python3\<close> line), translates \<open>pat\<close> to a regular expression with
  \<open>fnmatch.translate\<close> and matches the whole of \<open>name\<close> against it. The
  translation is followed here step by step, with the regular expression kept as
  a list of tokens instead of a string.
\<close>

datatype catom =
    Ch nat  \<comment> \<open>a literal character of a bracket expression (escaped where \<open>re\<close> needs it)\<close>
  | Hy      \<comment> \<open>the unescaped hyphen that \<open>'-'.join(chunks)\<close> puts between two chunks\<close>

datatype tok =
    STAR                     \<comment> \<open>\<open>*\<close>: any run of characters, \<open>/\<close> included\<close>
  | ANY                      \<comment> \<open>\<open>.\<close> under \<open>(?s)\<close>: any one character\<close>
  | LIT nat                  \<comment> \<open>\<open>re.escape(c)\<close>\<close>
  | NEVER                    \<comment> \<open>\<open>(?!)\<close>: the empty bracket expression\<close>
  | CLASS bool "catom list"  \<comment> \<open>\<open>[stuff]\<close>, or \<open>[^stuff]\<close> when the flag is set\<close>

text \<open>
  The scan for the closing bracket, from the character after \<open>[\<close>:
  \<^verbatim>\<open>j = i
if j < n and pat[j] == '!': j = j+1
if j < n and pat[j] == ']': j = j+1
while j < n and pat[j] != ']': j = j+1
if j >= n: add('\\[')
else: stuff = pat[i:j] ... i = j+1\<close>
  The result is \<open>None\<close> when no bracket closes, else \<open>stuff\<close> and the pattern
  after the closing bracket.
\<close>

definition close_bracket :: "pystr \<Rightarrow> (pystr \<times> pystr) option" where
  "close_bracket p =
     (let (a, p1) = (case p of c # r \<Rightarrow> if c = bang then ([c], r) else ([], p) | [] \<Rightarrow> ([], p));
          (b, p2) = (case p1 of c # r \<Rightarrow> if c = rbrack then ([c], r) else ([], p1) | [] \<Rightarrow> ([], p1))
      in case dropWhile (\<lambda>c. c \<noteq> rbrack) p2 of
           [] \<Rightarrow> None
         | _ # rest \<Rightarrow> Some (a @ b @ takeWhile (\<lambda>c. c \<noteq> rbrack) p2, rest))"

text \<open>
  The split of \<open>stuff\<close> at its range hyphens:
  \<^verbatim>\<open>k = i+2 if pat[i] == '!' else i+1
while True:
    k = pat.find('-', k, j)
    if k < 0: break
    chunks.append(pat[i:k])
    i = k+1
    k = k+3
chunk = pat[i:j]
if chunk: chunks.append(chunk)
else: chunks[-1] += '-'\<close>
  \<open>split_chunks skip cur s\<close> reads \<open>s\<close> from position \<open>i\<close>; \<open>skip\<close> is \<open>k - i\<close>,
  the number of characters the next \<open>find\<close> does not look at, and \<open>cur\<close> is the
  chunk read so far. Its last element is the final \<open>pat[i:j]\<close>, possibly empty.
\<close>

fun split_chunks :: "nat \<Rightarrow> pystr \<Rightarrow> pystr \<Rightarrow> pystr list" where
  "split_chunks skip cur [] = [cur]"
| "split_chunks skip cur (c # cs) =
     (if skip = 0 \<and> c = hyphen then cur # split_chunks 2 [] cs
      else split_chunks (skip - 1) (cur @ [c]) cs)"

fun close_chunks :: "pystr list \<Rightarrow> pystr list" where
  "close_chunks [] = []"
| "close_chunks [c] = [c]"
| "close_chunks [c, d] = (if d = [] then [c @ [hyphen]] else [c, d])"
| "close_chunks (c # cs) = c # close_chunks cs"

text \<open>
  The removal of empty ranges, from the last chunk to the first:
  \<^verbatim>\<open>for k in range(len(chunks)-1, 0, -1):
    if chunks[k-1][-1] > chunks[k][0]:
        chunks[k-1] = chunks[k-1][:-1] + chunks[k][1:]
        del chunks[k]\<close>
  The chunks compared are never empty there (the first search starts after the
  first character, the later ones two characters on); the equations for an empty
  chunk leave the list as it is.
\<close>

fun drop_empty_ranges :: "pystr list \<Rightarrow> pystr list" where
  "drop_empty_ranges [] = []"
| "drop_empty_ranges [c] = [c]"
| "drop_empty_ranges (c # cs) =
     (case drop_empty_ranges cs of
        [] \<Rightarrow> [c]
      | d # ds \<Rightarrow>
          (if c \<noteq> [] \<and> d \<noteq> [] \<and> last c > hd d then (butlast c @ tl d) # ds
           else c # d # ds))"

fun join_chunks :: "pystr list \<Rightarrow> catom list" where
  "join_chunks [] = []"
| "join_chunks [c] = map Ch c"
| "join_chunks (c # cs) = map Ch c @ Hy # join_chunks cs"

definition class_stuff :: "pystr \<Rightarrow> catom list" where
  "class_stuff stuff =
     (if hyphen \<notin> set stuff then map Ch stuff
      else join_chunks (drop_empty_ranges (close_chunks
             (split_chunks (case stuff of c # _ \<Rightarrow> if c = bang then 2 else 1 | [] \<Rightarrow> 1) [] stuff))))"

text \<open>
  \<^verbatim>\<open>if not stuff: add('(?!)')
elif stuff == '!': add('.')
else:
    if stuff[0] == '!': stuff = '^' + stuff[1:]
    elif stuff[0] in ('^', '['): stuff = '\\' + stuff
    add(f'[{stuff}]')\<close>
\<close>

definition class_tok :: "pystr \<Rightarrow> tok" where
  "class_tok stuff =
     (case class_stuff stuff of
        [] \<Rightarrow> NEVER
      | a # as \<Rightarrow>
          if a = Ch bang then (if as = [] then ANY else CLASS True as)
          else CLASS False (a # as))"

lemma close_bracket_shorter:
  "close_bracket p = Some (stuff, rest) \<Longrightarrow> length rest < Suc (length p)"
proof -
  assume h: "close_bracket p = Some (stuff, rest)"
  have dw: "\<And>q r x. dropWhile (\<lambda>c. c \<noteq> rbrack) q = x # r \<Longrightarrow> length r < length q"
  proof -
    fix q r :: pystr and x
    assume "dropWhile (\<lambda>c. c \<noteq> rbrack) q = x # r"
    then have "length (x # r) \<le> length q"
      by (metis length_dropWhile_le)
    then show "length r < length q" by simp
  qed
  from h show ?thesis
    by (auto simp: close_bracket_def Let_def split: list.splits if_splits dest!: dw)
qed

text \<open>
  The main loop of \<open>translate\<close>. The flag says that the last token added is
  \<open>STAR\<close>: consecutive stars are compressed into one.
\<close>

function translate_from :: "bool \<Rightarrow> pystr \<Rightarrow> tok list" where
  "translate_from prev [] = []"
| "translate_from prev (c # p) =
     (if c = star then
        (if prev then translate_from True p else STAR # translate_from True p)
      else if c = qmark then ANY # translate_from False p
      else if c = lbrack then
        (case close_bracket p of
           None \<Rightarrow> LIT lbrack # translate_from False p
         | Some (stuff, rest) \<Rightarrow> class_tok stuff # translate_from False rest)
      else LIT c # translate_from False p)"
  by pat_completeness auto
termination
  by (relation "measure (\<lambda>(prev, p). length p)") (auto dest: close_bracket_shorter)

definition translate :: "pystr \<Rightarrow> tok list" where
  "translate pat = translate_from False pat"

text \<open>
  What \<open>re\<close> makes of the body of a bracket expression: a character followed by
  an unescaped hyphen and another character is a range, a hyphen with nothing
  after it is a literal, everything else is a literal. \<open>re\<close> rejects a range whose
  upper end is below its lower end; \<open>translate\<close> has removed those, and here such
  a range holds no character.
\<close>

fun atom_code :: "catom \<Rightarrow> nat" where
  "atom_code (Ch c) = c"
| "atom_code Hy = hyphen"

fun class_ranges :: "catom list \<Rightarrow> (nat \<times> nat) list" where
  "class_ranges [] = []"
| "class_ranges [a] = [(atom_code a, atom_code a)]"
| "class_ranges [a, Hy] = [(atom_code a, atom_code a), (hyphen, hyphen)]"
| "class_ranges (a # Hy # b # rest) = (atom_code a, atom_code b) # class_ranges rest"
| "class_ranges (a # rest) = (atom_code a, atom_code a) # class_ranges rest"

definition in_class :: "nat \<Rightarrow> catom list \<Rightarrow> bool" where
  "in_class c as = list_ex (\<lambda>(lo, hi). lo \<le> c \<and> c \<le> hi) (class_ranges as)"

fun tok_accepts :: "tok \<Rightarrow> nat \<Rightarrow> bool" where
  "tok_accepts STAR c = False"
| "tok_accepts ANY c = True"
| "tok_accepts (LIT a) c = (c = a)"
| "tok_accepts NEVER c = False"
| "tok_accepts (CLASS neg as) c = (in_class c as \<noteq> neg)"

text \<open>The anchored match \<open>(?s:...)\Z\<close> of a whole name against the tokens.\<close>

fun re_match :: "tok list \<Rightarrow> pystr \<Rightarrow> bool" where
  "re_match [] s = (s = [])"
| "re_match (STAR # ts) [] = re_match ts []"
| "re_match (STAR # ts) (c # cs) = (re_match ts (c # cs) \<or> re_match (STAR # ts) cs)"
| "re_match (t # ts) [] = False"
| "re_match (t # ts) (c # cs) = (tok_accepts t c \<and> re_match ts cs)"

definition fnmatch :: "pystr \<Rightarrow> pystr \<Rightarrow> bool" where
  "fnmatch name pat = re_match (translate pat) name"

section \<open>The path filter\<close>

text \<open>
  \<^verbatim>\<open>def is_ignored(path, patterns):
    for pattern in patterns:
        if fnmatch.fnmatch(path, pattern) or fnmatch.fnmatch(path, f"*/{pattern}"):
            return True
    print(f"{path}")
    return False\<close>
  The function prints the paths it does not exclude; standard output is the list
  of lines printed so far, threaded through every call.
\<close>

fun any_pattern_matches :: "pystr \<Rightarrow> pystr list \<Rightarrow> bool" where
  "any_pattern_matches path [] = False"
| "any_pattern_matches path (pattern # patterns) =
     (if fnmatch path pattern \<or> fnmatch path (str ''*/'' @ pattern) then True
      else any_pattern_matches path patterns)"

definition is_ignored :: "pystr \<Rightarrow> pystr list \<Rightarrow> pystr list \<Rightarrow> bool \<times> pystr list" where
  "is_ignored path patterns stdout =
     (if any_pattern_matches path patterns then (True, stdout)
      else (False, stdout @ [path]))"

section \<open>Files, the runtime and the state of a run\<close>

text \<open>
  The program reads files, creates or truncates one file and prints. The file
  system is a table of file objects; a path names one of them, and two paths may
  name the same one (\<open>output.txt\<close> and \<open>./output.txt\<close>). What the operating
  system and the Python runtime decide is a parameter of the model: which object
  a path names, which opens of an existing file are refused and with which
  \<open>errno\<close>, what \<open>os.scandir\<close> lists, what
  \<open>glob.glob\<close> expands to, the encoding of the locale, and how many bytes of the
  text written to an open handle have left its buffers. The encoding of the
  locale is what \<open>open\<close> uses when it is given none: its decoder for the ignore
  file, its encoder for the output file. The encoder is given character by
  character (the encodings a locale can have are of that kind); it is strict,
  and a character it has no bytes for makes the write raise
  \<open>UnicodeEncodeError\<close>. Printing is taken to succeed.
\<close>

type_synonym byte = "8 word"

datatype fobj = Absent | Directory | Regular "byte list"

datatype exn =
    OSError nat  \<comment> \<open>with its \<open>errno\<close>\<close>
  | UnicodeDecodeError
  | UnicodeEncodeError

definition ENOENT :: nat where "ENOENT = 2"
definition EISDIR :: nat where "EISDIR = 21"

datatype dirtree =
    Dir "(pystr \<times> dirtree) list" "pystr list"
      \<comment> \<open>what \<open>os.walk\<close> sorts a scanned directory into: the entries that are
          directories, each with its own listing, and the names of the others\<close>
  | NoScan
      \<comment> \<open>a directory that \<open>os.walk\<close> yields nothing for: \<open>os.scandir\<close> fails on it
          (the error is dropped, \<open>onerror\<close> being \<open>None\<close>), or it is a symbolic link
          (\<open>followlinks\<close> being \<open>False\<close>)\<close>

record env =
  inode :: "pystr \<Rightarrow> nat"
  read_refused :: "nat \<Rightarrow> nat option"
  write_refused :: "nat \<Rightarrow> nat option"
  scandir_tree :: "pystr \<Rightarrow> dirtree"
  glob :: "pystr \<Rightarrow> pystr list"
  locale_decode :: "byte list \<Rightarrow> pystr option"
  locale_encode :: "nat \<Rightarrow> byte list option"
  flushed :: "pystr \<Rightarrow> nat"

record state =
  disk :: "nat \<Rightarrow> fobj"
  written :: pystr
  stdout :: "pystr list"

text \<open>\<open>os.path.exists\<close>, and \<open>open(path, "r", ...)\<close> up to the bytes of the file.\<close>

definition path_exists :: "env \<Rightarrow> state \<Rightarrow> pystr \<Rightarrow> bool" where
  "path_exists E s path = (disk s (inode E path) \<noteq> Absent)"

definition open_read :: "env \<Rightarrow> state \<Rightarrow> pystr \<Rightarrow> exn + byte list" where
  "open_read E s path =
     (case disk s (inode E path) of
        Absent \<Rightarrow> Inl (OSError ENOENT)
      | Directory \<Rightarrow> Inl (OSError EISDIR)
      | Regular bs \<Rightarrow>
          (case read_refused E (inode E path) of
             Some errno \<Rightarrow> Inl (OSError errno)
           | None \<Rightarrow> Inr bs))"

subsection \<open>Decoding\<close>

text \<open>
  The strict UTF-8 decoder: a truncated sequence, a stray continuation byte, an
  overlong form, a surrogate and a code point above \<open>0x10FFFF\<close> are rejected.
\<close>

definition cont :: "byte \<Rightarrow> bool" where
  "cont b = (128 \<le> unat b \<and> unat b < 192)"

definition low6 :: "byte \<Rightarrow> nat" where
  "low6 b = unat b mod 64"

fun utf8_decode :: "byte list \<Rightarrow> pystr option" where
  "utf8_decode [] = Some []"
| "utf8_decode (b # bs) =
     (if unat b < 128 then map_option ((#) (unat b)) (utf8_decode bs)
      else if 192 \<le> unat b \<and> unat b < 224 then
        (case bs of
           c1 # r \<Rightarrow>
             (let cp = (unat b mod 32) * 64 + low6 c1
              in if cont c1 \<and> 128 \<le> cp then map_option ((#) cp) (utf8_decode r) else None)
         | _ \<Rightarrow> None)
      else if 224 \<le> unat b \<and> unat b < 240 then
        (case bs of
           c1 # c2 # r \<Rightarrow>
             (let cp = (unat b mod 16) * 4096 + low6 c1 * 64 + low6 c2
              in if cont c1 \<and> cont c2 \<and> 2048 \<le> cp \<and> \<not> (55296 \<le> cp \<and> cp < 57344)
                 then map_option ((#) cp) (utf8_decode r) else None)
         | _ \<Rightarrow> None)
      else if 240 \<le> unat b \<and> unat b < 248 then
        (case bs of
           c1 # c2 # c3 # r \<Rightarrow>
             (let cp = (unat b mod 8) * 262144 + low6 c1 * 4096 + low6 c2 * 64 + low6 c3
              in if cont c1 \<and> cont c2 \<and> cont c3 \<and> 65536 \<le> cp \<and> cp < 1114112
                 then map_option ((#) cp) (utf8_decode r) else None)
         | _ \<Rightarrow> None)
      else None)"

text \<open>Latin-1 gives every byte the code point of its value.\<close>

definition latin1_decode :: "byte list \<Rightarrow> pystr option" where
  "latin1_decode bs = Some (map unat bs)"

text \<open>
  The encoders that go with them, one character at a time, and the ASCII codec:
  UTF-8 has bytes for every code point but the surrogates, Latin-1 for those
  below 256, ASCII for those below 128.
\<close>

definition utf8_encode :: "nat \<Rightarrow> byte list option" where
  "utf8_encode c =
     (if c < 128 then Some [of_nat c]
      else if c < 2048 then Some [of_nat (192 + c div 64), of_nat (128 + c mod 64)]
      else if 55296 \<le> c \<and> c < 57344 then None
      else if c < 65536 then
        Some [of_nat (224 + c div 4096), of_nat (128 + c div 64 mod 64), of_nat (128 + c mod 64)]
      else if c < 1114112 then
        Some [of_nat (240 + c div 262144), of_nat (128 + c div 4096 mod 64),
              of_nat (128 + c div 64 mod 64), of_nat (128 + c mod 64)]
      else None)"

definition latin1_encode :: "nat \<Rightarrow> byte list option" where
  "latin1_encode c = (if c < 256 then Some [of_nat c] else None)"

definition ascii_decode :: "byte list \<Rightarrow> pystr option" where
  "ascii_decode bs = (if list_all (\<lambda>b. unat b < 128) bs then Some (map unat bs) else None)"

definition ascii_encode :: "nat \<Rightarrow> byte list option" where
  "ascii_encode c = (if c < 128 then Some [of_nat c] else None)"

text \<open>
  A file opened in text mode with the default \<open>newline=None\<close> hands out
  \<open>\r\n\<close> and a lone \<open>\r\<close> as \<open>\n\<close>.
\<close>

fun universal_newlines :: "pystr \<Rightarrow> pystr" where
  "universal_newlines [] = []"
| "universal_newlines [a] = [if a = cr then newline else a]"
| "universal_newlines (a # b # r) =
     (if a = cr \<and> b = newline then newline # universal_newlines r
      else if a = cr then newline # universal_newlines (b # r)
      else a # universal_newlines (b # r))"

text \<open>
  \<open>with open(path, "r", encoding=...) as f: f.read()\<close>: the open may raise
  \<open>OSError\<close>, the decoding \<open>UnicodeDecodeError\<close>.
\<close>

definition read_text ::
  "env \<Rightarrow> state \<Rightarrow> (byte list \<Rightarrow> pystr option) \<Rightarrow> pystr \<Rightarrow> exn + pystr" where
  "read_text E s decode path =
     (case open_read E s path of
        Inl e \<Rightarrow> Inl e
      | Inr bs \<Rightarrow>
          (case decode bs of
             None \<Rightarrow> Inl UnicodeDecodeError
           | Some t \<Rightarrow> Inr (universal_newlines t)))"

text \<open>
  \<^verbatim>\<open>def read_file_contents(file_path):
    try:
        with open(file_path, "r", encoding="utf-8") as f:
            return f.read()
    except UnicodeDecodeError:
        with open(file_path, "r", encoding="latin-1") as f:
            return f.read()\<close>
\<close>

definition read_file_contents :: "env \<Rightarrow> state \<Rightarrow> pystr \<Rightarrow> exn + pystr" where
  "read_file_contents E s file_path =
     (case read_text E s utf8_decode file_path of
        Inl e \<Rightarrow>
          (if e = UnicodeDecodeError then read_text E s latin1_decode file_path else Inl e)
      | Inr contents \<Rightarrow> Inr contents)"

section \<open>The ignore file\<close>

text \<open>
  Iterating over a text file yields its lines, each with its closing \<open>\n\<close>; the
  last line may have none.
\<close>

fun file_lines :: "pystr \<Rightarrow> pystr list" where
  "file_lines [] = []"
| "file_lines (c # cs) =
     (if c = newline then [c] # file_lines cs
      else (case file_lines cs of [] \<Rightarrow> [[c]] | l # ls \<Rightarrow> (c # l) # ls))"

text \<open>The characters \<open>str.strip()\<close> removes: those for which \<open>str.isspace\<close> holds.\<close>

definition is_space :: "nat \<Rightarrow> bool" where
  "is_space c =
     ((9 \<le> c \<and> c \<le> 13) \<or> (28 \<le> c \<and> c \<le> 32) \<or> c = 133 \<or> c = 160 \<or> c = 5760 \<or>
      (8192 \<le> c \<and> c \<le> 8202) \<or> c = 8232 \<or> c = 8233 \<or> c = 8239 \<or> c = 8287 \<or> c = 12288)"

definition strip :: "pystr \<Rightarrow> pystr" where
  "strip s = rev (dropWhile is_space (rev (dropWhile is_space s)))"

definition startswith :: "pystr \<Rightarrow> pystr \<Rightarrow> bool" where
  "startswith s p = (take (length p) s = p)"

text \<open>
  \<^verbatim>\<open>def read_gitignore(gitignore_path=".gitignore"):
    patterns = []
    if os.path.exists(gitignore_path):
        with open(gitignore_path, "r") as f:
            for line in f:
                line = line.strip()
                if line and not line.startswith('#'):
                    patterns.append(line)
    return patterns\<close>
  The file is decoded with the encoding of the locale.
\<close>

fun gitignore_loop :: "pystr list \<Rightarrow> pystr list \<Rightarrow> pystr list" where
  "gitignore_loop patterns [] = patterns"
| "gitignore_loop patterns (line # f) =
     (let line = strip line
      in if line \<noteq> [] \<and> \<not> startswith line (str ''#'')
         then gitignore_loop (patterns @ [line]) f
         else gitignore_loop patterns f)"

definition read_gitignore :: "env \<Rightarrow> state \<Rightarrow> pystr \<Rightarrow> exn + pystr list" where
  "read_gitignore E s gitignore_path =
     (if path_exists E s gitignore_path then
        (case read_text E s (locale_decode E) gitignore_path of
           Inl e \<Rightarrow> Inl e
         | Inr f \<Rightarrow> Inr (gitignore_loop [] (file_lines f)))
      else Inr [])"

section \<open>Writing the output\<close>

text \<open>
  \<open>open(output_file, "w")\<close> creates the file or truncates it; the handle is the
  file object it opened. \<open>written\<close> is the text that \<open>out.write\<close> has taken
  since then; of its encoding, the first \<open>flushed\<close> bytes are in the file while
  the handle is open, and all of them once the \<open>with\<close> block has closed it.

  \<open>out.write(t)\<close> encodes \<open>t\<close> before it takes any of it: when a character of
  \<open>t\<close> has no bytes in the encoding of the locale, the call raises
  \<open>UnicodeEncodeError\<close> and nothing of \<open>t\<close> is written.
\<close>

definition encodable :: "env \<Rightarrow> pystr \<Rightarrow> bool" where
  "encodable E t = list_all (\<lambda>c. locale_encode E c \<noteq> None) t"

definition encoded :: "env \<Rightarrow> pystr \<Rightarrow> byte list" where
  "encoded E t = concat (map (\<lambda>c. case locale_encode E c of None \<Rightarrow> [] | Some bs \<Rightarrow> bs) t)"

definition open_write :: "env \<Rightarrow> state \<Rightarrow> pystr \<Rightarrow> exn + state" where
  "open_write E s path =
     (case disk s (inode E path) of
        Directory \<Rightarrow> Inl (OSError EISDIR)
      | _ \<Rightarrow>
          (case write_refused E (inode E path) of
             Some errno \<Rightarrow> Inl (OSError errno)
           | None \<Rightarrow> Inr (s\<lparr>disk := (disk s)(inode E path := Regular []), written := []\<rparr>)))"

definition out_write :: "env \<Rightarrow> nat \<Rightarrow> pystr \<Rightarrow> state \<Rightarrow> exn + state" where
  "out_write E out t s =
     (if encodable E t then
        Inr (s\<lparr>written := written s @ t,
               disk := (disk s)(out := Regular (take (flushed E (written s @ t))
                                                    (encoded E (written s @ t))))\<rparr>)
      else Inl UnicodeEncodeError)"

definition out_close :: "env \<Rightarrow> nat \<Rightarrow> state \<Rightarrow> state" where
  "out_close E out s = s\<lparr>disk := (disk s)(out := Regular (encoded E (written s)))\<rparr>"

text \<open>
  The body of both loops (lines 50 to 54 for a wildcard file, 63 to 67 for a
  file of the walk):
  \<^verbatim>\<open>if not is_ignored(file_path, patterns):
    out.write(f"{file_path}\n")
    file_contents = read_file_contents(file_path)
    out.write(file_contents)
    out.write("\n\n")\<close>
  Each of the three writes and the read may raise; an exception leaves the
  loop with the state reached.
\<close>

definition write_entry ::
  "env \<Rightarrow> pystr list \<Rightarrow> nat \<Rightarrow> pystr \<Rightarrow> state \<Rightarrow> exn option \<times> state" where
  "write_entry E patterns out file_path s =
     (case is_ignored file_path patterns (stdout s) of
        (ignored, printed) \<Rightarrow>
          if ignored then (None, s\<lparr>stdout := printed\<rparr>)
          else
            (case out_write E out (file_path @ [newline]) (s\<lparr>stdout := printed\<rparr>) of
               Inl e \<Rightarrow> (Some e, s\<lparr>stdout := printed\<rparr>)
             | Inr s1 \<Rightarrow>
                 (case read_file_contents E s1 file_path of
                    Inl e \<Rightarrow> (Some e, s1)
                  | Inr file_contents \<Rightarrow>
                      (case out_write E out file_contents s1 of
                         Inl e \<Rightarrow> (Some e, s1)
                       | Inr s2 \<Rightarrow>
                           (case out_write E out [newline, newline] s2 of
                              Inl e \<Rightarrow> (Some e, s2)
                            | Inr s3 \<Rightarrow> (None, s3))))))"

fun wildcard_loop ::
  "env \<Rightarrow> pystr list \<Rightarrow> nat \<Rightarrow> pystr list \<Rightarrow> state \<Rightarrow> exn option \<times> state" where
  "wildcard_loop E patterns out [] s = (None, s)"
| "wildcard_loop E patterns out (wildcard_file # wildcard_files) s =
     (case write_entry E patterns out wildcard_file s of
        (Some e, s') \<Rightarrow> (Some e, s')
      | (None, s') \<Rightarrow> wildcard_loop E patterns out wildcard_files s')"

section \<open>The walk\<close>

text \<open>\<open>os.path.join(a, b)\<close> of \<open>posixpath\<close>.\<close>

definition join :: "pystr \<Rightarrow> pystr \<Rightarrow> pystr" where
  "join a b =
     (if startswith b [slash] then b
      else if a = [] \<or> last a = slash then a @ b
      else a @ slash # b)"

text \<open>
  Line 59, \<open>dirs[:] = [d for d in dirs if not is_ignored(os.path.join(root, d), patterns)]\<close>:
  every entry is tested, in order, before the files of the directory are read.
\<close>

fun filter_dirs ::
  "pystr list \<Rightarrow> pystr \<Rightarrow> (pystr \<times> dirtree) list \<Rightarrow> pystr list \<Rightarrow>
   (pystr \<times> dirtree) list \<times> pystr list" where
  "filter_dirs patterns root [] printed = ([], printed)"
| "filter_dirs patterns root ((d, t) # dirs) printed =
     (case is_ignored (join root d) patterns printed of
        (ignored, printed1) \<Rightarrow>
          (case filter_dirs patterns root dirs printed1 of
             (kept, printed2) \<Rightarrow> (if ignored then kept else (d, t) # kept, printed2)))"

fun files_loop ::
  "env \<Rightarrow> pystr list \<Rightarrow> nat \<Rightarrow> pystr \<Rightarrow> pystr list \<Rightarrow> state \<Rightarrow> exn option \<times> state" where
  "files_loop E patterns out root [] s = (None, s)"
| "files_loop E patterns out root (file # files) s =
     (case write_entry E patterns out (join root file) s of
        (Some e, s') \<Rightarrow> (Some e, s')
      | (None, s') \<Rightarrow> files_loop E patterns out root files s')"

lemma filter_dirs_size:
  "filter_dirs patterns root dirs printed = (kept, printed') \<Longrightarrow>
   size_list f kept \<le> size_list f dirs"
proof (induction dirs arbitrary: printed kept printed')
  case Nil
  then show ?case by simp
next
  case (Cons a dirs)
  obtain d t where a: "a = (d, t)" by (cases a)
  obtain b p1 where i: "is_ignored (join root d) patterns printed = (b, p1)"
    by (cases "is_ignored (join root d) patterns printed")
  obtain k p2 where r: "filter_dirs patterns root dirs p1 = (k, p2)"
    by (cases "filter_dirs patterns root dirs p1")
  from Cons.IH [OF r] have "size_list f k \<le> size_list f dirs" .
  with Cons.prems a i r show ?case by (auto split: if_splits)
qed

text \<open>
  \<open>for root, dirs, files in os.walk(root_dir)\<close>, top down: the generator yields
  a directory, the loop body filters \<open>dirs\<close> in place and writes the files, and
  the generator then goes into what is left of \<open>dirs\<close>, in order.
\<close>

function walk ::
    "env \<Rightarrow> pystr list \<Rightarrow> nat \<Rightarrow> pystr \<Rightarrow> dirtree \<Rightarrow> state \<Rightarrow> exn option \<times> state"
  and walk_dirs ::
    "env \<Rightarrow> pystr list \<Rightarrow> nat \<Rightarrow> pystr \<Rightarrow> (pystr \<times> dirtree) list \<Rightarrow> state \<Rightarrow>
     exn option \<times> state"
where
  "walk E patterns out root NoScan s = (None, s)"
| "walk E patterns out root (Dir dirs files) s =
     (case filter_dirs patterns root dirs (stdout s) of
        (dirs', printed) \<Rightarrow>
          (case files_loop E patterns out root files (s\<lparr>stdout := printed\<rparr>) of
             (Some e, s') \<Rightarrow> (Some e, s')
           | (None, s') \<Rightarrow> walk_dirs E patterns out root dirs' s'))"
| "walk_dirs E patterns out root [] s = (None, s)"
| "walk_dirs E patterns out root ((d, t) # dirs) s =
     (case walk E patterns out (join root d) t s of
        (Some e, s') \<Rightarrow> (Some e, s')
      | (None, s') \<Rightarrow> walk_dirs E patterns out root dirs s')"
  by pat_completeness auto
termination
proof (relation "measure (case_sum (\<lambda>(E, ps, out, root, t, s). size t)
    (\<lambda>(E, ps, out, root, ds, s). size_list (size_prod (\<lambda>x. 0) size) ds))", goal_cases)
  case 1
  show ?case by simp
next
  case (2 E patterns out root dirs files s kept printed)
  from 2(1) have "size_list (size_prod (\<lambda>x. 0) size) kept
      \<le> size_list (size_prod (\<lambda>x. 0) size) dirs"
    by (rule filter_dirs_size [OF sym])
  then show ?case by simp
next
  case 3
  show ?case by simp
next
  case 4
  show ?case by simp
qed

section \<open>The run\<close>

text \<open>
  Lines 47 to 67, the \<open>with open(output_file, "w") as out:\<close> block: the
  wildcard files first, then the walk. Leaving the block, by its end or by an
  exception, closes the handle.
\<close>

definition output_block ::
  "env \<Rightarrow> pystr list \<Rightarrow> pystr \<Rightarrow> pystr list \<Rightarrow> pystr \<Rightarrow> state \<Rightarrow> exn option \<times> state" where
  "output_block E patterns output_file wildcard_files root_dir s =
     (case open_write E s output_file of
        Inl e \<Rightarrow> (Some e, s)
      | Inr s0 \<Rightarrow>
          (let out = inode E output_file
           in case wildcard_loop E patterns out wildcard_files s0 of
                (Some e, s1) \<Rightarrow> (Some e, out_close E out s1)
              | (None, s1) \<Rightarrow>
                  (case walk E patterns out root_dir (scandir_tree E root_dir) s1 of
                     (r, s2) \<Rightarrow> (r, out_close E out s2))))"

text \<open>
  \<^verbatim>\<open>def write_files_to_output(root_dir=".", output_file="output.txt",
                          additional_patterns=None, wildcard_files=None):
    if additional_patterns is None: additional_patterns = []
    if wildcard_files is None: wildcard_files = []
    patterns = read_gitignore()
    patterns.extend(additional_patterns)
    with open(output_file, "w") as out: ...\<close>
  \<open>read_gitignore\<close> is called without an argument: the path is its default,
  \<open>.gitignore\<close>. \<open>or_empty\<close> is the replacement of \<open>None\<close> by a new empty list.
\<close>

definition or_empty :: "'a list option \<Rightarrow> 'a list" where
  "or_empty l = (case l of None \<Rightarrow> [] | Some l \<Rightarrow> l)"

definition write_files_to_output ::
  "env \<Rightarrow> pystr \<Rightarrow> pystr \<Rightarrow> pystr list option \<Rightarrow> pystr list option \<Rightarrow> state \<Rightarrow>
   exn option \<times> state" where
  "write_files_to_output E root_dir output_file additional_patterns wildcard_files s =
     (case read_gitignore E s (str ''.gitignore'') of
        Inl e \<Rightarrow> (Some e, s)
      | Inr patterns \<Rightarrow>
          output_block E (patterns @ or_empty additional_patterns) output_file
            (or_empty wildcard_files) root_dir s)"

text \<open>
  The script itself, after \<open>argparse\<close> has filled in \<open>args\<close> (\<open>root_directory\<close>
  defaults to \<open>.\<close>, \<open>output\<close> to \<open>output.txt\<close>):
  \<^verbatim>\<open>wildcard_files = []
for pattern in wildcard_patterns:
    wildcard_files.extend(glob.glob(pattern))
additional_patterns = [".git", ".gitignore", "*.py", ...]
write_files_to_output(root_directory, output_file=output_file,
    additional_patterns=additional_patterns, wildcard_files=wildcard_files)\<close>
\<close>

record args =
  root_directory :: pystr
  wildcard_patterns :: "pystr list"
  args_output :: pystr

fun glob_loop :: "env \<Rightarrow> pystr list \<Rightarrow> pystr list \<Rightarrow> pystr list" where
  "glob_loop E wildcard_files [] = wildcard_files"
| "glob_loop E wildcard_files (pattern # patterns) =
     glob_loop E (wildcard_files @ glob E pattern) patterns"

definition additional_patterns :: "pystr list" where
  "additional_patterns = map str
     [''.git'', ''.gitignore'', ''*.py'', ''*.lock'', ''*.lockb'', ''*.png'', ''*.jpg'',
      ''*.jpeg'', ''*.ico'', ''*.gif'', ''*.svg'', ''*.pdf'', ''*.doc'', ''*.docx'',
      ''*.sqlite*'', ''*.ppt'', ''*.pptx'', ''*-lock.json'', ''.devcontainer'', ''.vscode'',
      ''node_modules'', ''prisma/migrations'', ''.next'']"

definition main :: "env \<Rightarrow> args \<Rightarrow> state \<Rightarrow> exn option \<times> state" where
  "main E a s =
     write_files_to_output E (root_directory a) (args_output a) (Some additional_patterns)
       (Some (glob_loop E [] (wildcard_patterns a))) s"

section \<open>The vocabulary of the properties\<close>

text \<open>
  The unit of the output, \<open><path>\n<content>\n\n\<close>, and the text made of
  a list of them.
\<close>

definition entry :: "pystr \<Rightarrow> pystr \<Rightarrow> pystr" where
  "entry path contents = path @ [newline] @ contents @ [newline, newline]"

definition render :: "(pystr \<times> pystr) list \<Rightarrow> pystr" where
  "render es = concat (map (\<lambda>(path, contents). entry path contents) es)"

text \<open>The paths of a list that the path filter lets through, in order.\<close>

definition not_ignored :: "pystr list \<Rightarrow> pystr list \<Rightarrow> pystr list" where
  "not_ignored patterns paths = filter (\<lambda>p. \<not> any_pattern_matches p patterns) paths"

text \<open>
  The file paths the walk of a directory tree comes to and does not exclude, in
  the order of the walk: the files of a directory, then its subdirectories one
  after the other, an excluded subdirectory contributing nothing.
\<close>

fun walk_paths :: "pystr list \<Rightarrow> pystr \<Rightarrow> dirtree \<Rightarrow> pystr list"
  and walk_paths_dirs :: "pystr list \<Rightarrow> pystr \<Rightarrow> (pystr \<times> dirtree) list \<Rightarrow> pystr list"
where
  "walk_paths patterns root NoScan = []"
| "walk_paths patterns root (Dir dirs files) =
     not_ignored patterns (map (join root) files) @ walk_paths_dirs patterns root dirs"
| "walk_paths_dirs patterns root [] = []"
| "walk_paths_dirs patterns root ((d, t) # dirs) =
     (if any_pattern_matches (join root d) patterns then []
      else walk_paths patterns (join root d) t) @ walk_paths_dirs patterns root dirs"

text \<open>
  A directory tree with the listing of every excluded directory taken away, at
  any depth: what is left of such a directory is an entry that is not scanned.
\<close>

fun prune :: "pystr list \<Rightarrow> pystr \<Rightarrow> dirtree \<Rightarrow> dirtree"
  and prune_dirs :: "pystr list \<Rightarrow> pystr \<Rightarrow> (pystr \<times> dirtree) list \<Rightarrow> (pystr \<times> dirtree) list"
where
  "prune patterns root NoScan = NoScan"
| "prune patterns root (Dir dirs files) = Dir (prune_dirs patterns root dirs) files"
| "prune_dirs patterns root [] = []"
| "prune_dirs patterns root ((d, t) # dirs) =
     (d, if any_pattern_matches (join root d) patterns then NoScan
         else prune patterns (join root d) t) # prune_dirs patterns root dirs"

section \<open>The path filter as the specification words it\<close>

text \<open>
  The specification gives the second way a pattern can exclude a path as a match
  anchored at the base name, one directory level up: the pattern is compared
  with the last component of the path. \<open>claimed_is_ignored\<close> is the filter read
  that way: a path is excluded when some pattern matches the whole path or
  matches its base name. It is a reading of the specification, to be compared
  with \<open>is_ignored\<close>; nothing of the program is translated here.
\<close>

definition basename :: "pystr \<Rightarrow> pystr" where
  "basename path = rev (takeWhile (\<lambda>c. c \<noteq> slash) (rev path))"

definition claimed_is_ignored :: "pystr \<Rightarrow> pystr list \<Rightarrow> bool" where
  "claimed_is_ignored path patterns =
     list_ex (\<lambda>pattern. fnmatch path pattern \<or>
                (slash \<in> set path \<and> fnmatch (basename path) pattern)) patterns"

section \<open>The arguments as list objects\<close>

text \<open>
  Python passes lists by reference. To say what a call does to the lists of its
  caller, the list objects live in a store, a list object being named by its
  index there; a new list is put at the end. The store version of
  \<open>write_files_to_output\<close> takes the two list arguments as references
  (\<open>None\<close> for Python's \<open>None\<close>), does to the store what lines 39 to 45 do,
  and runs the rest on the lists it finds there.
\<close>

type_synonym store = "pystr list list"

definition new_list :: "pystr list \<Rightarrow> store \<Rightarrow> nat \<times> store" where
  "new_list l H = (length H, H @ [l])"

definition list_extend :: "nat \<Rightarrow> nat \<Rightarrow> store \<Rightarrow> store" where
  "list_extend a b H = H[a := H ! a @ H ! b]"

definition write_files_to_output_refs ::
  "env \<Rightarrow> pystr \<Rightarrow> pystr \<Rightarrow> nat option \<Rightarrow> nat option \<Rightarrow> store \<Rightarrow> state \<Rightarrow>
   (exn option \<times> state) \<times> store" where
  "write_files_to_output_refs E root_dir output_file additional_ref wildcard_ref H s =
     (let (additional, H1) =
            (case additional_ref of None \<Rightarrow> new_list [] H | Some a \<Rightarrow> (a, H));
          (wildcard, H2) =
            (case wildcard_ref of None \<Rightarrow> new_list [] H1 | Some a \<Rightarrow> (a, H1))
      in case read_gitignore E s (str ''.gitignore'') of
           Inl e \<Rightarrow> ((Some e, s), H2)
         | Inr lines \<Rightarrow>
             (let (patterns, H3) = new_list lines H2;
                  H4 = list_extend patterns additional H3
              in (output_block E (H4 ! patterns) output_file (H4 ! wildcard) root_dir s,
                  H4)))"

section \<open>A small world to run the program in\<close>

text \<open>
  A directory with \<open>a.txt\<close>, \<open>bad.bin\<close> (one byte that is not UTF-8),
  \<open>secret.txt\<close>, the output file of an earlier run, an ignore file naming
  \<open>secret.txt\<close>, and \<open>node_modules/inner.txt\<close>; elsewhere, \<open>/tmp/euro.txt\<close>
  holds the euro sign in UTF-8. The locale is Latin-1 and the output stays in
  the buffers until the handle is closed.
\<close>

definition ex_inode :: "pystr \<Rightarrow> nat" where
  "ex_inode p =
     (if p = str ''.gitignore'' then 7
      else if p = str ''output.txt'' \<or> p = str ''./output.txt'' then 2
      else if p = str ''a.txt'' \<or> p = str ''./a.txt'' then 3
      else if p = str ''./node_modules/inner.txt'' then 4
      else if p = str ''./bad.bin'' then 5
      else if p = str ''./secret.txt'' then 6
      else if p = str ''/tmp/euro.txt'' then 8
      else 0)"

definition ex_tree :: dirtree where
  "ex_tree =
     Dir [(str ''node_modules'', Dir [] [str ''inner.txt''])]
         [str ''a.txt'', str ''bad.bin'', str ''output.txt'', str ''secret.txt'']"

definition ex_env :: env where
  "ex_env =
     \<lparr>inode = ex_inode,
      read_refused = (\<lambda>i. None),
      write_refused = (\<lambda>i. None),
      scandir_tree = (\<lambda>p. if p = str ''.'' then ex_tree else NoScan),
      glob = (\<lambda>p. if p = str ''*.txt'' then [str ''a.txt''] else []),
      locale_decode = latin1_decode,
      locale_encode = latin1_encode,
      flushed = (\<lambda>t. 0)\<rparr>"

text \<open>The same world under an ASCII locale, and under a UTF-8 locale.\<close>

definition ex_ascii :: env where
  "ex_ascii = ex_env\<lparr>locale_decode := ascii_decode, locale_encode := ascii_encode\<rparr>"

definition ex_utf8 :: env where
  "ex_utf8 = ex_env\<lparr>locale_decode := utf8_decode, locale_encode := utf8_encode\<rparr>"

definition ex_disk :: "nat \<Rightarrow> fobj" where
  "ex_disk i =
     (if i = 7 then Regular (map of_nat (str ''# mine'' @ [cr, newline] @ str '' secret.txt '' @ [newline]))
      else if i = 2 then Regular (map of_nat (str ''old''))
      else if i = 3 then Regular (map of_nat (str ''hi''))
      else if i = 4 then Regular (map of_nat (str ''x''))
      else if i = 5 then Regular [255]
      else if i = 6 then Regular (map of_nat (str ''s''))
      else if i = 8 then Regular [226, 130, 172]
      else Absent)"

definition ex_state :: state where
  "ex_state = \<lparr>disk = ex_disk, written = [], stdout = []\<rparr>"

text \<open>
  Two other states of the disk: the name \<open>.gitignore\<close> is a directory; the
  ignore file has a byte that is not UTF-8 in its second line.
\<close>

definition ex_state_dir :: state where
  "ex_state_dir = ex_state\<lparr>disk := ex_disk(7 := Directory)\<rparr>"

definition ex_state_undecodable :: state where
  "ex_state_undecodable = ex_state\<lparr>disk := ex_disk(7 := Regular [111, 107, 10, 255, 10])\<rparr>"

text \<open>The patterns of that world: its ignore file, then \<open>node_modules\<close>.\<close>

definition ex_pats :: "pystr list" where
  "ex_pats = [str ''secret.txt'', str ''node_modules'']"

text \<open>The command line \<open>print_files.py . '*.txt'\<close>.\<close>

definition ex_args :: args where
  "ex_args = \<lparr>root_directory = str ''.'', wildcard_patterns = [str ''*.txt''],
     args_output = str ''output.txt''\<rparr>"

text \<open>The state once \<open>output.txt\<close> has been opened for writing.\<close>

definition ex_opened :: state where
  "ex_opened = ex_state\<lparr>disk := ex_disk(2 := Regular []), written := []\<rparr>"

section \<open>The text of a run, step by step\<close>

text \<open>
  \<open>entries_read E out s es\<close>: the content of every unit of \<open>es\<close> is what
  \<open>read_file_contents\<close> gives for its path (said for the files that are not the
  output file itself, which do not change during the run).
\<close>

definition entries_read :: "env \<Rightarrow> nat \<Rightarrow> state \<Rightarrow> (pystr \<times> pystr) list \<Rightarrow> bool" where
  "entries_read E out s es \<longleftrightarrow>
     (\<forall>(p, c) \<in> set es. inode E p \<noteq> out \<longrightarrow> read_file_contents E s p = Inr c)"

text \<open>
  \<open>stopped E out s e p tail\<close>: how the exception \<open>e\<close> can come up at the
  file \<open>p\<close>, and the part \<open>tail\<close> of the unit of \<open>p\<close> that is in the output
  then. Either the path line cannot be encoded and nothing of the unit is there;
  or the path line is there and the read raised an \<open>OSError\<close>; or the path
  line is there and the text read cannot be encoded.
\<close>

definition stopped :: "env \<Rightarrow> nat \<Rightarrow> state \<Rightarrow> exn \<Rightarrow> pystr \<Rightarrow> pystr \<Rightarrow> bool" where
  "stopped E out s e p tail \<longleftrightarrow>
     (tail = [] \<and> e = UnicodeEncodeError \<and> \<not> encodable E (p @ [newline])) \<or>
     (tail = p @ [newline] \<and> encodable E (p @ [newline]) \<and>
      ((\<exists>n. e = OSError n) \<and> (inode E p \<noteq> out \<longrightarrow> read_file_contents E s p = Inl e) \<or>
       e = UnicodeEncodeError \<and>
       (\<exists>c. \<not> encodable E c \<and> (inode E p \<noteq> out \<longrightarrow> read_file_contents E s p = Inr c))))"

text \<open>
  \<open>run_spec E out paths s r s'\<close> says what a stretch of the run that comes to the
  non-excluded \<open>paths\<close> in this order, starts in \<open>s\<close> and ends in \<open>s'\<close> with
  the exception \<open>r\<close> (if any) has done: it has changed no file but the one
  open for writing, and it has appended one unit per path, in order, all of them
  when there is no exception and else up to the path at which the exception came
  up, of whose unit \<open>tail\<close> is there. Every character of the text appended has
  bytes in the encoding of the locale.
\<close>

definition run_spec :: "env \<Rightarrow> nat \<Rightarrow> pystr list \<Rightarrow> state \<Rightarrow> exn option \<Rightarrow> state \<Rightarrow> bool" where
  "run_spec E out paths s r s' \<longleftrightarrow>
     (\<forall>i. i \<noteq> out \<longrightarrow> disk s' i = disk s i) \<and>
     (\<exists>es tail.
        entries_read E out s es \<and>
        written s' = written s @ render es @ tail \<and>
        encodable E (render es @ tail) \<and>
        (case r of
           None \<Rightarrow> map fst es = paths \<and> tail = []
         | Some e \<Rightarrow> (\<exists>p rest. paths = map fst es @ p # rest \<and> stopped E out s e p tail)))"

text \<open>The paths of the subdirectories a walk goes into, none of them tested.\<close>

fun dirs_paths :: "pystr list \<Rightarrow> pystr \<Rightarrow> (pystr \<times> dirtree) list \<Rightarrow> pystr list" where
  "dirs_paths patterns root [] = []"
| "dirs_paths patterns root ((d, t) # dirs) =
     walk_paths patterns (join root d) t @ dirs_paths patterns root dirs"

text \<open>The subdirectories a walk goes into, each with its excluded parts taken away.\<close>

fun prune_kept :: "pystr list \<Rightarrow> pystr \<Rightarrow> (pystr \<times> dirtree) list \<Rightarrow> (pystr \<times> dirtree) list" where
  "prune_kept patterns root [] = []"
| "prune_kept patterns root ((d, t) # dirs) =
     (d, prune patterns (join root d) t) # prune_kept patterns root dirs"

text \<open>The state that a write the encoder accepts leaves.\<close>

definition after_write :: "env \<Rightarrow> nat \<Rightarrow> pystr \<Rightarrow> state \<Rightarrow> state" where
  "after_write E out t s =
     s\<lparr>written := written s @ t,
       disk := (disk s)(out := Regular (take (flushed E (written s @ t))
                                            (encoded E (written s @ t))))\<rparr>"

text \<open>What two runs in that world write: one that ends well, one that a missing file ends.\<close>

definition ex_text :: pystr where
  "ex_text =
     str ''a.txt'' @ [newline] @ str ''hi'' @ [newline, newline] @
     str ''./a.txt'' @ [newline] @ str ''hi'' @ [newline, newline] @
     str ''./bad.bin'' @ [newline] @ [255] @ [newline, newline] @
     str ''./output.txt'' @ [newline] @ [newline, newline]"

definition ex_partial :: pystr where
  "ex_partial =
     str ''a.txt'' @ [newline] @ str ''hi'' @ [newline, newline] @ str ''missing.txt'' @ [newline]"

text \<open>
  The paths that get an entry in a run, in order: the wildcard files the filter
  lets through, then the files of the walk.
\<close>

definition entry_paths :: "env \<Rightarrow> pystr list \<Rightarrow> pystr list \<Rightarrow> pystr \<Rightarrow> pystr list" where
  "entry_paths E patterns wildcard_files root_dir =
     not_ignored patterns wildcard_files @
     walk_paths patterns root_dir (scandir_tree E root_dir)"

section \<open>Lemmas about the run\<close>

subsection \<open>Reads and writes\<close>

lemma open_read_cases:
  "open_read E s p = Inl e \<Longrightarrow> \<exists>n. e = OSError n"
  by (auto simp: open_read_def split: fobj.splits option.splits)

lemma read_text_disk:
  assumes "disk s1 (inode E p) = disk s (inode E p)"
  shows "read_text E s1 decode p = read_text E s decode p"
  using assms by (simp add: read_text_def open_read_def)

lemma read_file_contents_disk:
  assumes "disk s1 (inode E p) = disk s (inode E p)"
  shows "read_file_contents E s1 p = read_file_contents E s p"
  unfolding read_file_contents_def read_text_disk [OF assms] by (rule refl)

lemma read_file_contents_cases:
  "read_file_contents E s file_path =
     (case open_read E s file_path of
        Inl e \<Rightarrow> Inl e
      | Inr bs \<Rightarrow>
          (case utf8_decode bs of
             Some t \<Rightarrow> Inr (universal_newlines t)
           | None \<Rightarrow> Inr (universal_newlines (map unat bs))))"
proof (cases "open_read E s file_path")
  case (Inl e)
  then obtain n where "e = OSError n" using open_read_cases by blast
  with Inl show ?thesis
    by (simp add: read_file_contents_def read_text_def)
next
  case (Inr bs)
  then show ?thesis
    by (cases "utf8_decode bs")
       (simp_all add: read_file_contents_def read_text_def latin1_decode_def)
qed

lemma read_file_contents_Inl:
  assumes "read_file_contents E s p = Inl e"
  shows "\<exists>n. e = OSError n"
proof (cases "open_read E s p")
  case (Inl x)
  with assms have "x = e" by (simp add: read_file_contents_cases)
  with Inl show ?thesis using open_read_cases by blast
next
  case (Inr bs)
  with assms show ?thesis
    by (cases "utf8_decode bs") (simp_all add: read_file_contents_cases)
qed

lemma encodable_simps:
  "encodable E []"
  "encodable E (c # t) = (locale_encode E c \<noteq> None \<and> encodable E t)"
  "encodable E (t @ u) = (encodable E t \<and> encodable E u)"
  by (simp_all add: encodable_def)


lemma out_write_cases:
  "out_write E out t s =
     (if encodable E t then Inr (after_write E out t s) else Inl UnicodeEncodeError)"
  by (simp add: out_write_def after_write_def)

lemma after_write_simps:
  "written (after_write E out t s) = written s @ t"
  "stdout (after_write E out t s) = stdout s"
  "i \<noteq> out \<Longrightarrow> disk (after_write E out t s) i = disk s i"
  by (simp_all add: after_write_def)

lemma out_close_simps:
  "written (out_close E out s) = written s"
  "stdout (out_close E out s) = stdout s"
  "i \<noteq> out \<Longrightarrow> disk (out_close E out s) i = disk s i"
  "disk (out_close E out s) out = Regular (encoded E (written s))"
  by (simp_all add: out_close_def)

lemma render_simps:
  "render [] = []"
  "render ((p, c) # es) = p @ [newline] @ c @ [newline, newline] @ render es"
  "render (es @ es') = render es @ render es'"
  by (simp_all add: render_def entry_def)

subsection \<open>Composing stretches of a run\<close>

lemma entries_read_simps:
  "entries_read E out s []"
  "entries_read E out s (es @ es') = (entries_read E out s es \<and> entries_read E out s es')"
  by (auto simp: entries_read_def)

lemma entries_read_one:
  "(inode E p \<noteq> out \<Longrightarrow> read_file_contents E s p = Inr c) \<Longrightarrow> entries_read E out s [(p, c)]"
  by (simp add: entries_read_def)

lemma entries_read_frame:
  assumes "\<And>p. inode E p \<noteq> out \<Longrightarrow> read_file_contents E s1 p = read_file_contents E s p"
  shows "entries_read E out s1 es = entries_read E out s es"
  using assms by (auto simp: entries_read_def)

lemma stopped_frame:
  assumes "\<And>p. inode E p \<noteq> out \<Longrightarrow> read_file_contents E s1 p = read_file_contents E s p"
  shows "stopped E out s1 e p tail = stopped E out s e p tail"
proof (cases "inode E p = out")
  case True
  then show ?thesis by (simp add: stopped_def)
next
  case False
  then show ?thesis by (simp add: stopped_def assms)
qed

lemma run_spec_frame:
  "run_spec E out paths s r s' \<Longrightarrow> i \<noteq> out \<Longrightarrow> disk s' i = disk s i"
  by (simp add: run_spec_def)

lemma run_spec_NoneI:
  assumes "\<And>i. i \<noteq> out \<Longrightarrow> disk s' i = disk s i"
    and "entries_read E out s es"
    and "map fst es = paths"
    and "written s' = written s @ render es"
    and "encodable E (render es)"
  shows "run_spec E out paths s None s'"
proof -
  have "entries_read E out s es \<and> written s' = written s @ render es @ [] \<and>
        encodable E (render es @ []) \<and> map fst es = paths \<and> ([]::pystr) = []"
    using assms(2-5) by simp
  then have "\<exists>tail. entries_read E out s es \<and> written s' = written s @ render es @ tail \<and>
        encodable E (render es @ tail) \<and> map fst es = paths \<and> tail = []"
    by (rule exI)
  then have "\<exists>es tail. entries_read E out s es \<and> written s' = written s @ render es @ tail \<and>
        encodable E (render es @ tail) \<and> map fst es = paths \<and> tail = []"
    by (rule exI)
  with assms(1) show ?thesis by (simp add: run_spec_def)
qed

lemma run_spec_SomeI:
  assumes "\<And>i. i \<noteq> out \<Longrightarrow> disk s' i = disk s i"
    and "entries_read E out s es"
    and "paths = map fst es @ p # rest"
    and "written s' = written s @ render es @ tail"
    and "encodable E (render es @ tail)"
    and "stopped E out s e p tail"
  shows "run_spec E out paths s (Some e) s'"
proof -
  have "paths = map fst es @ p # rest \<and> stopped E out s e p tail"
    using assms(3,6) by (intro conjI)
  then have "\<exists>rest. paths = map fst es @ p # rest \<and> stopped E out s e p tail"
    by (rule exI)
  then have "\<exists>p rest. paths = map fst es @ p # rest \<and> stopped E out s e p tail"
    by (rule exI)
  with assms(2,4,5) have
    "entries_read E out s es \<and> written s' = written s @ render es @ tail \<and>
     encodable E (render es @ tail) \<and>
     (\<exists>p rest. paths = map fst es @ p # rest \<and> stopped E out s e p tail)"
    by (intro conjI)
  then have
    "\<exists>tail. entries_read E out s es \<and> written s' = written s @ render es @ tail \<and>
     encodable E (render es @ tail) \<and>
     (\<exists>p rest. paths = map fst es @ p # rest \<and> stopped E out s e p tail)"
    by (rule exI)
  then have
    "\<exists>es tail. entries_read E out s es \<and> written s' = written s @ render es @ tail \<and>
     encodable E (render es @ tail) \<and>
     (\<exists>p rest. paths = map fst es @ p # rest \<and> stopped E out s e p tail)"
    by (rule exI)
  with assms(1) show ?thesis by (simp add: run_spec_def)
qed

lemma run_spec_NoneE:
  assumes "run_spec E out paths s None s'"
  obtains es where
    "entries_read E out s es"
    "map fst es = paths"
    "written s' = written s @ render es"
    "encodable E (render es)"
proof -
  from assms have
    "\<exists>es tail. entries_read E out s es \<and> written s' = written s @ render es @ tail \<and>
        encodable E (render es @ tail) \<and> map fst es = paths \<and> tail = []"
    by (simp add: run_spec_def)
  then obtain es tail where
    "entries_read E out s es" "written s' = written s @ render es @ tail"
    "encodable E (render es @ tail)" "map fst es = paths" "tail = []"
    by (elim exE conjE)
  then show ?thesis using that [of es] by simp
qed

lemma run_spec_SomeE:
  assumes "run_spec E out paths s (Some e) s'"
  obtains es p rest tail where
    "entries_read E out s es"
    "paths = map fst es @ p # rest"
    "written s' = written s @ render es @ tail"
    "encodable E (render es @ tail)"
    "stopped E out s e p tail"
proof -
  from assms have
    "\<exists>es tail. entries_read E out s es \<and> written s' = written s @ render es @ tail \<and>
     encodable E (render es @ tail) \<and>
     (\<exists>p rest. paths = map fst es @ p # rest \<and> stopped E out s e p tail)"
    by (simp add: run_spec_def)
  then show ?thesis by (elim exE conjE) (rule that)
qed

lemma run_spec_stdout:
  "run_spec E out paths (s\<lparr>stdout := x\<rparr>) r s' = run_spec E out paths s r s'"
proof -
  have rd: "\<And>p. inode E p \<noteq> out \<Longrightarrow>
      read_file_contents E (s\<lparr>stdout := x\<rparr>) p = read_file_contents E s p"
    by (rule read_file_contents_disk) simp
  have e: "\<And>es. entries_read E out (s\<lparr>stdout := x\<rparr>) es = entries_read E out s es"
    using rd by (rule entries_read_frame)
  have t: "\<And>e p tail. stopped E out (s\<lparr>stdout := x\<rparr>) e p tail = stopped E out s e p tail"
    using rd by (rule stopped_frame)
  show ?thesis
  proof (cases r)
    case None
    then show ?thesis by (simp add: run_spec_def e)
  next
    case (Some a)
    then show ?thesis by (simp add: run_spec_def e t)
  qed
qed

lemma run_spec_nil: "run_spec E out [] s None s"
  by (rule run_spec_NoneI [where es = "[]"])
     (simp_all add: render_simps entries_read_simps encodable_simps)

lemma run_spec_append:
  assumes 1: "run_spec E out P1 s None s1"
    and 2: "run_spec E out P2 s1 r s2"
  shows "run_spec E out (P1 @ P2) s r s2"
proof -
  have frame: "\<And>i. i \<noteq> out \<Longrightarrow> disk s2 i = disk s i"
    using run_spec_frame [OF 1] run_spec_frame [OF 2] by simp
  have rd: "\<And>p. inode E p \<noteq> out \<Longrightarrow> read_file_contents E s1 p = read_file_contents E s p"
    by (rule read_file_contents_disk) (simp add: run_spec_frame [OF 1])
  from 1 obtain es1 where
    e1: "entries_read E out s es1"
    and m1: "map fst es1 = P1" and w1: "written s1 = written s @ render es1"
    and c1: "encodable E (render es1)"
    by (rule run_spec_NoneE)
  show ?thesis
  proof (cases r)
    case None
    with 2 have two: "run_spec E out P2 s1 None s2" by simp
    from two obtain es2 where
      e2: "entries_read E out s1 es2"
      and m2: "map fst es2 = P2" and w2: "written s2 = written s1 @ render es2"
      and c2: "encodable E (render es2)"
      by (rule run_spec_NoneE)
    have e2': "entries_read E out s es2"
      using e2 entries_read_frame [of E out s1 s es2, OF rd] by simp
    have "run_spec E out (P1 @ P2) s None s2"
    proof (rule run_spec_NoneI [where es = "es1 @ es2"])
      show "\<And>i. i \<noteq> out \<Longrightarrow> disk s2 i = disk s i" by (rule frame)
      show "entries_read E out s (es1 @ es2)"
        using e1 e2' by (simp add: entries_read_simps)
      show "map fst (es1 @ es2) = P1 @ P2" using m1 m2 by simp
      show "written s2 = written s @ render (es1 @ es2)"
        using w1 w2 by (simp add: render_simps)
      show "encodable E (render (es1 @ es2))"
        using c1 c2 by (simp add: render_simps encodable_simps)
    qed
    with None show ?thesis by simp
  next
    case (Some x)
    with 2 have two: "run_spec E out P2 s1 (Some x) s2" by simp
    from two obtain es2 p rest tail where
      e2: "entries_read E out s1 es2"
      and p2: "P2 = map fst es2 @ p # rest"
      and w2: "written s2 = written s1 @ render es2 @ tail"
      and c2: "encodable E (render es2 @ tail)"
      and r2: "stopped E out s1 x p tail"
      by (rule run_spec_SomeE)
    have e2': "entries_read E out s es2"
      using e2 entries_read_frame [of E out s1 s es2, OF rd] by simp
    have r2': "stopped E out s x p tail"
      using r2 stopped_frame [of E out s1 s x p tail, OF rd] by simp
    have "run_spec E out (P1 @ P2) s (Some x) s2"
    proof (rule run_spec_SomeI [where es = "es1 @ es2" and p = p and rest = rest and tail = tail])
      show "\<And>i. i \<noteq> out \<Longrightarrow> disk s2 i = disk s i" by (rule frame)
      show "entries_read E out s (es1 @ es2)"
        using e1 e2' by (simp add: entries_read_simps)
      show "P1 @ P2 = map fst (es1 @ es2) @ p # rest" using m1 p2 by simp
      show "written s2 = written s @ render (es1 @ es2) @ tail"
        using w1 w2 by (simp add: render_simps)
      show "encodable E (render (es1 @ es2) @ tail)"
        using c1 c2 by (simp add: render_simps encodable_simps)
      show "stopped E out s x p tail" by (rule r2')
    qed
    with Some show ?thesis by simp
  qed
qed

lemma run_spec_fail:
  assumes 1: "run_spec E out P1 s (Some e) s1"
  shows "run_spec E out (P1 @ P2) s (Some e) s1"
proof -
  from 1 obtain es p rest tail where
    e1: "entries_read E out s es"
    and m1: "P1 = map fst es @ p # rest"
    and w1: "written s1 = written s @ render es @ tail"
    and c1: "encodable E (render es @ tail)"
    and r1: "stopped E out s e p tail"
    by (rule run_spec_SomeE)
  show ?thesis
  proof (rule run_spec_SomeI [where es = es and p = p and rest = "rest @ P2" and tail = tail])
    show "\<And>i. i \<noteq> out \<Longrightarrow> disk s1 i = disk s i" by (rule run_spec_frame [OF 1])
    show "entries_read E out s es" by (rule e1)
    show "P1 @ P2 = map fst es @ p # rest @ P2" using m1 by simp
    show "written s1 = written s @ render es @ tail" by (rule w1)
    show "encodable E (render es @ tail)" by (rule c1)
    show "stopped E out s e p tail" by (rule r1)
  qed
qed

lemma run_spec_seq:
  assumes "run_spec E out P1 s r1 s1"
    and "r1 = None \<Longrightarrow> run_spec E out P2 s1 r s2"
    and "r1 \<noteq> None \<Longrightarrow> r = r1 \<and> s2 = s1"
  shows "run_spec E out (P1 @ P2) s r s2"
proof (cases r1)
  case None
  with assms(1) have a: "run_spec E out P1 s None s1" by simp
  from None assms(2) have b: "run_spec E out P2 s1 r s2" by simp
  from a b show ?thesis by (rule run_spec_append)
next
  case (Some e)
  with assms(3) have eq: "r = Some e" "s2 = s1" by simp_all
  from Some assms(1) have "run_spec E out P1 s (Some e) s1" by simp
  then have "run_spec E out (P1 @ P2) s (Some e) s1" by (rule run_spec_fail)
  with eq show ?thesis by simp
qed

subsection \<open>One file\<close>

lemma not_ignored_simps:
  "not_ignored ps [] = []"
  "not_ignored ps (p # paths) =
     (if any_pattern_matches p ps then not_ignored ps paths else p # not_ignored ps paths)"
  "not_ignored ps (paths @ paths') = not_ignored ps paths @ not_ignored ps paths'"
  by (simp_all add: not_ignored_def)

text \<open>
  What \<open>write_entry\<close> does with a path, case by case. \<open>s1\<close> is the state once
  the path line is written.
\<close>

lemma write_entry_ignored:
  assumes "any_pattern_matches p ps"
  shows "write_entry E ps out p s = (None, s)"
  using assms by (simp add: write_entry_def is_ignored_def)

lemma write_entry_cases:
  assumes "\<not> any_pattern_matches p ps"
  shows "write_entry E ps out p s =
     (if \<not> encodable E (p @ [newline]) then
        (Some UnicodeEncodeError, s\<lparr>stdout := stdout s @ [p]\<rparr>)
      else
        (case read_file_contents E
                (after_write E out (p @ [newline]) (s\<lparr>stdout := stdout s @ [p]\<rparr>)) p of
           Inl e \<Rightarrow> (Some e, after_write E out (p @ [newline]) (s\<lparr>stdout := stdout s @ [p]\<rparr>))
         | Inr c \<Rightarrow>
             if encodable E c then
               (None, after_write E out [newline, newline]
                  (after_write E out c
                     (after_write E out (p @ [newline]) (s\<lparr>stdout := stdout s @ [p]\<rparr>))))
             else
               (Some UnicodeEncodeError,
                after_write E out (p @ [newline]) (s\<lparr>stdout := stdout s @ [p]\<rparr>))))"
proof (cases "encodable E (p @ [newline])")
  case False
  with assms show ?thesis
    by (simp add: write_entry_def is_ignored_def out_write_cases)
next
  case True
  then have nn: "encodable E [newline, newline]" by (simp add: encodable_simps)
  let ?s1 = "after_write E out (p @ [newline]) (s\<lparr>stdout := stdout s @ [p]\<rparr>)"
  show ?thesis
  proof (cases "read_file_contents E ?s1 p")
    case (Inl e)
    with assms True show ?thesis
      by (simp add: write_entry_def is_ignored_def out_write_cases)
  next
    case (Inr c)
    with assms True nn show ?thesis
      by (simp add: write_entry_def is_ignored_def out_write_cases)
  qed
qed

lemma write_entry_spec:
  assumes "write_entry E ps out p s = (r, s')"
  shows "run_spec E out (not_ignored ps [p]) s r s'"
proof (cases "any_pattern_matches p ps")
  case True
  with assms have r: "r = None" and s': "s' = s"
    by (simp_all add: write_entry_ignored)
  from True have "not_ignored ps [p] = []" by (simp add: not_ignored_simps)
  with r s' show ?thesis by (simp add: run_spec_nil)
next
  case False
  note w = write_entry_cases [OF False, of E out s]
  let ?s0 = "s\<lparr>stdout := stdout s @ [p]\<rparr>"
  let ?s1 = "after_write E out (p @ [newline]) ?s0"
  have paths: "not_ignored ps [p] = [p]" using False by (simp add: not_ignored_simps)
  have d1: "\<And>i. i \<noteq> out \<Longrightarrow> disk ?s1 i = disk s i"
    by (simp add: after_write_simps)
  have w1: "written ?s1 = written s @ p @ [newline]"
    by (simp add: after_write_simps)
  have rd: "inode E p \<noteq> out \<Longrightarrow> read_file_contents E ?s1 p = read_file_contents E s p"
    by (rule read_file_contents_disk) (simp add: d1)
  show ?thesis
  proof (cases "encodable E (p @ [newline])")
    case no: False
    with assms w have r: "r = Some UnicodeEncodeError" and s': "s' = ?s0" by simp_all
    have "run_spec E out [p] s (Some UnicodeEncodeError) ?s0"
    proof (rule run_spec_SomeI [where es = "[]" and p = p and rest = "[]" and tail = "[]"])
      show "\<And>i. i \<noteq> out \<Longrightarrow> disk ?s0 i = disk s i" by simp
      show "entries_read E out s []" by (simp add: entries_read_simps)
      show "[p] = map fst [] @ p # []" by simp
      show "written ?s0 = written s @ render [] @ []" by (simp add: render_simps)
      show "encodable E (render [] @ [])" by (simp add: render_simps encodable_simps)
      show "stopped E out s UnicodeEncodeError p []" using no by (simp add: stopped_def)
    qed
    with r s' paths show ?thesis by simp
  next
    case yes: True
    show ?thesis
    proof (cases "read_file_contents E ?s1 p")
      case (Inl e)
      with assms w yes have r: "r = Some e" and s': "s' = ?s1" by simp_all
      from Inl obtain n where n: "e = OSError n" using read_file_contents_Inl by blast
      have "run_spec E out [p] s (Some e) ?s1"
      proof (rule run_spec_SomeI [where es = "[]" and p = p and rest = "[]"
            and tail = "p @ [newline]"])
        show "\<And>i. i \<noteq> out \<Longrightarrow> disk ?s1 i = disk s i" by (rule d1)
        show "entries_read E out s []" by (simp add: entries_read_simps)
        show "[p] = map fst [] @ p # []" by simp
        show "written ?s1 = written s @ render [] @ p @ [newline]"
          using w1 by (simp add: render_simps)
        show "encodable E (render [] @ p @ [newline])" using yes by (simp add: render_simps)
        show "stopped E out s e p (p @ [newline])"
          using yes n Inl rd by (simp add: stopped_def)
      qed
      with r s' paths show ?thesis by simp
    next
      case (Inr c)
      show ?thesis
      proof (cases "encodable E c")
        case cno: False
        with assms w yes Inr have r: "r = Some UnicodeEncodeError" and s': "s' = ?s1"
          by simp_all
        have c: "\<not> encodable E c \<and> (inode E p \<noteq> out \<longrightarrow> read_file_contents E s p = Inr c)"
          using cno Inr rd by simp
        then have ex: "\<exists>c. \<not> encodable E c \<and>
            (inode E p \<noteq> out \<longrightarrow> read_file_contents E s p = Inr c)" by (rule exI)
        have "run_spec E out [p] s (Some UnicodeEncodeError) ?s1"
        proof (rule run_spec_SomeI [where es = "[]" and p = p and rest = "[]"
              and tail = "p @ [newline]"])
          show "\<And>i. i \<noteq> out \<Longrightarrow> disk ?s1 i = disk s i" by (rule d1)
          show "entries_read E out s []" by (simp add: entries_read_simps)
          show "[p] = map fst [] @ p # []" by simp
          show "written ?s1 = written s @ render [] @ p @ [newline]"
            using w1 by (simp add: render_simps)
          show "encodable E (render [] @ p @ [newline])" using yes by (simp add: render_simps)
          show "stopped E out s UnicodeEncodeError p (p @ [newline])"
            using yes ex by (simp add: stopped_def)
        qed
        with r s' paths show ?thesis by simp
      next
        case cyes: True
        let ?s3 = "after_write E out [newline, newline] (after_write E out c ?s1)"
        from assms w yes Inr cyes have r: "r = None" and s': "s' = ?s3" by simp_all
        have "run_spec E out [p] s None ?s3"
        proof (rule run_spec_NoneI [where es = "[(p, c)]"])
          show "\<And>i. i \<noteq> out \<Longrightarrow> disk ?s3 i = disk s i"
            by (simp add: after_write_simps)
          show "entries_read E out s [(p, c)]"
            using Inr rd by (intro entries_read_one) simp
          show "map fst [(p, c)] = [p]" by simp
          show "written ?s3 = written s @ render [(p, c)]"
            by (simp add: after_write_simps render_simps)
          show "encodable E (render [(p, c)])"
            using yes cyes by (simp add: render_simps encodable_simps)
        qed
        with r s' paths show ?thesis by simp
      qed
    qed
  qed
qed

subsection \<open>The two loops over files\<close>

lemma wildcard_loop_spec:
  "wildcard_loop E ps out paths s = (r, s') \<Longrightarrow> run_spec E out (not_ignored ps paths) s r s'"
proof (induction paths arbitrary: s)
  case Nil
  then show ?case by (simp add: not_ignored_simps run_spec_nil)
next
  case (Cons p paths)
  obtain r1 s1 where e: "write_entry E ps out p s = (r1, s1)"
    by (cases "write_entry E ps out p s")
  have 1: "run_spec E out (not_ignored ps [p]) s r1 s1"
    using e by (rule write_entry_spec)
  have 2: "r1 = None \<Longrightarrow> run_spec E out (not_ignored ps paths) s1 r s'"
    using Cons.prems e Cons.IH [of s1] by simp
  have 3: "r1 \<noteq> None \<Longrightarrow> r = r1 \<and> s' = s1"
    using Cons.prems e by auto
  have "run_spec E out (not_ignored ps [p] @ not_ignored ps paths) s r s'"
    using 1 2 3 by (rule run_spec_seq)
  moreover have "not_ignored ps [p] @ not_ignored ps paths = not_ignored ps (p # paths)"
    by (simp add: not_ignored_simps)
  ultimately show ?case by simp
qed

lemma files_loop_spec:
  "files_loop E ps out root files s = (r, s') \<Longrightarrow>
   run_spec E out (not_ignored ps (map (join root) files)) s r s'"
proof (induction files arbitrary: s)
  case Nil
  then show ?case by (simp add: not_ignored_simps run_spec_nil)
next
  case (Cons f files)
  obtain r1 s1 where e: "write_entry E ps out (join root f) s = (r1, s1)"
    by (cases "write_entry E ps out (join root f) s")
  have 1: "run_spec E out (not_ignored ps [join root f]) s r1 s1"
    using e by (rule write_entry_spec)
  have 2: "r1 = None \<Longrightarrow> run_spec E out (not_ignored ps (map (join root) files)) s1 r s'"
    using Cons.prems e Cons.IH [of s1] by simp
  have 3: "r1 \<noteq> None \<Longrightarrow> r = r1 \<and> s' = s1"
    using Cons.prems e by auto
  have "run_spec E out (not_ignored ps [join root f] @ not_ignored ps (map (join root) files)) s r s'"
    using 1 2 3 by (rule run_spec_seq)
  moreover have "not_ignored ps [join root f] @ not_ignored ps (map (join root) files)
      = not_ignored ps (map (join root) (f # files))"
    by (simp add: not_ignored_simps)
  ultimately show ?case by simp
qed

subsection \<open>The walk\<close>


lemma filter_dirs_fst:
  "fst (filter_dirs ps root dirs printed) =
     filter (\<lambda>(d, t). \<not> any_pattern_matches (join root d) ps) dirs"
proof (induction dirs arbitrary: printed)
  case Nil
  show ?case by simp
next
  case (Cons a dirs)
  obtain d t where a: "a = (d, t)" by (cases a)
  obtain b p1 where i: "is_ignored (join root d) ps printed = (b, p1)"
    by (cases "is_ignored (join root d) ps printed")
  then have b: "b = any_pattern_matches (join root d) ps"
    by (auto simp: is_ignored_def split: if_splits)
  obtain k p2 where r: "filter_dirs ps root dirs p1 = (k, p2)"
    by (cases "filter_dirs ps root dirs p1")
  from Cons.IH [of p1] r
  have "k = filter (\<lambda>(d, t). \<not> any_pattern_matches (join root d) ps) dirs" by simp
  with a i b r show ?case by simp
qed

lemma walk_paths_dirs_filter:
  "walk_paths_dirs ps root dirs =
     dirs_paths ps root (filter (\<lambda>(d, t). \<not> any_pattern_matches (join root d) ps) dirs)"
  by (induction dirs) auto

lemma walk_spec_aux:
  "(\<forall>r s'. walk E ps out root t s = (r, s') \<longrightarrow> run_spec E out (walk_paths ps root t) s r s')"
  "(\<forall>r s'. walk_dirs E ps out root ds s = (r, s') \<longrightarrow> run_spec E out (dirs_paths ps root ds) s r s')"
proof (induction E ps out root t s and E ps out root ds s rule: walk_walk_dirs.induct)
  case (1 E patterns out root s)
  show ?case by (simp add: run_spec_nil)
next
  case (2 E patterns out root dirs files s)
  show ?case
  proof (intro allI impI)
    fix r s'
    assume run: "walk E patterns out root (Dir dirs files) s = (r, s')"
    obtain kept printed where f: "filter_dirs patterns root dirs (stdout s) = (kept, printed)"
      by (cases "filter_dirs patterns root dirs (stdout s)")
    obtain r1 s1 where l: "files_loop E patterns out root files (s\<lparr>stdout := printed\<rparr>) = (r1, s1)"
      by (cases "files_loop E patterns out root files (s\<lparr>stdout := printed\<rparr>)")
    have kept: "kept = filter (\<lambda>(d, t). \<not> any_pattern_matches (join root d) patterns) dirs"
      using filter_dirs_fst [of patterns root dirs "stdout s"] f by simp
    have 1: "run_spec E out (not_ignored patterns (map (join root) files)) s r1 s1"
      using files_loop_spec [OF l] by (simp add: run_spec_stdout)
    have 2: "r1 = None \<Longrightarrow> run_spec E out (dirs_paths patterns root kept) s1 r s'"
    proof -
      assume n: "r1 = None"
      with run f l have "walk_dirs E patterns out root kept s1 = (r, s')" by simp
      with "2.IH" [OF f [symmetric] l [symmetric] n] show ?thesis by simp
    qed
    have 3: "r1 \<noteq> None \<Longrightarrow> r = r1 \<and> s' = s1"
      using run f l by auto
    have "run_spec E out (not_ignored patterns (map (join root) files) @ dirs_paths patterns root kept)
        s r s'"
      using 1 2 3 by (rule run_spec_seq)
    then show "run_spec E out (walk_paths patterns root (Dir dirs files)) s r s'"
      by (simp add: kept walk_paths_dirs_filter)
  qed
next
  case (3 E patterns out root s)
  show ?case by (simp add: run_spec_nil)
next
  case (4 E patterns out root d t dirs s)
  show ?case
  proof (intro allI impI)
    fix r s'
    assume run: "walk_dirs E patterns out root ((d, t) # dirs) s = (r, s')"
    obtain r1 s1 where w: "walk E patterns out (join root d) t s = (r1, s1)"
      by (cases "walk E patterns out (join root d) t s")
    have 1: "run_spec E out (walk_paths patterns (join root d) t) s r1 s1"
      using "4.IH"(1) w by simp
    have 2: "r1 = None \<Longrightarrow> run_spec E out (dirs_paths patterns root dirs) s1 r s'"
    proof -
      assume n: "r1 = None"
      with run w have "walk_dirs E patterns out root dirs s1 = (r, s')" by simp
      with "4.IH"(2) [OF w [symmetric] n] show ?thesis by simp
    qed
    have 3: "r1 \<noteq> None \<Longrightarrow> r = r1 \<and> s' = s1"
      using run w by auto
    have "run_spec E out (walk_paths patterns (join root d) t @ dirs_paths patterns root dirs) s r s'"
      using 1 2 3 by (rule run_spec_seq)
    then show "run_spec E out (dirs_paths patterns root ((d, t) # dirs)) s r s'" by simp
  qed
qed

lemma walk_spec:
  "walk E ps out root t s = (r, s') \<Longrightarrow> run_spec E out (walk_paths ps root t) s r s'"
  using walk_spec_aux(1) by blast

subsection \<open>Excluded directories\<close>

lemma filter_dirs_prune:
  "filter_dirs ps root (prune_dirs ps root dirs) printed =
     (prune_kept ps root (fst (filter_dirs ps root dirs printed)),
      snd (filter_dirs ps root dirs printed))"
proof (induction dirs arbitrary: printed)
  case Nil
  show ?case by simp
next
  case (Cons a dirs)
  obtain d t where a: "a = (d, t)" by (cases a)
  obtain b p1 where i: "is_ignored (join root d) ps printed = (b, p1)"
    by (cases "is_ignored (join root d) ps printed")
  then have b: "b = any_pattern_matches (join root d) ps"
    by (auto simp: is_ignored_def split: if_splits)
  obtain k p2 where r: "filter_dirs ps root dirs p1 = (k, p2)"
    by (cases "filter_dirs ps root dirs p1")
  from Cons.IH [of p1] r
  have "filter_dirs ps root (prune_dirs ps root dirs) p1 = (prune_kept ps root k, p2)"
    by simp
  with a i b r show ?case by simp
qed

lemma walk_prune_aux:
  "walk E ps out root (prune ps root t) s = walk E ps out root t s"
  "walk_dirs E ps out root (prune_kept ps root ds) s = walk_dirs E ps out root ds s"
proof (induction E ps out root t s and E ps out root ds s rule: walk_walk_dirs.induct)
  case (1 E patterns out root s)
  show ?case by simp
next
  case (2 E patterns out root dirs files s)
  obtain kept printed where f: "filter_dirs patterns root dirs (stdout s) = (kept, printed)"
    by (cases "filter_dirs patterns root dirs (stdout s)")
  obtain r1 s1 where l: "files_loop E patterns out root files (s\<lparr>stdout := printed\<rparr>) = (r1, s1)"
    by (cases "files_loop E patterns out root files (s\<lparr>stdout := printed\<rparr>)")
  have fp: "filter_dirs patterns root (prune_dirs patterns root dirs) (stdout s) =
      (prune_kept patterns root kept, printed)"
    using filter_dirs_prune [of patterns root dirs "stdout s"] f by simp
  show ?case
  proof (cases r1)
    case None
    from "2.IH" [OF f [symmetric] l [symmetric] None]
    have "walk_dirs E patterns out root (prune_kept patterns root kept) s1 =
        walk_dirs E patterns out root kept s1" .
    with f l fp None show ?thesis by simp
  next
    case (Some e)
    with f l fp show ?thesis by simp
  qed
next
  case (3 E patterns out root s)
  show ?case by simp
next
  case (4 E patterns out root d t dirs s)
  obtain r1 s1 where w: "walk E patterns out (join root d) t s = (r1, s1)"
    by (cases "walk E patterns out (join root d) t s")
  show ?case
  proof (cases r1)
    case None
    from "4.IH"(2) [OF w [symmetric] None]
    have "walk_dirs E patterns out root (prune_kept patterns root dirs) s1 =
        walk_dirs E patterns out root dirs s1" .
    with "4.IH"(1) w None show ?thesis by simp
  next
    case (Some e)
    with "4.IH"(1) w show ?thesis by simp
  qed
qed

subsection \<open>The block that holds the output file open\<close>

lemma open_write_Inr:
  assumes "open_write E s output_file = Inr s0"
  shows "s0 = s\<lparr>disk := (disk s)(inode E output_file := Regular []), written := []\<rparr>"
  using assms
  by (simp add: open_write_def split: fobj.splits option.splits)

lemma run_spec_close:
  assumes "run_spec E out paths s r s2"
  shows "run_spec E out paths s r (out_close E out s2)"
proof (cases r)
  case None
  with assms have "run_spec E out paths s None s2" by simp
  then obtain es where
    e: "entries_read E out s es"
    and m: "map fst es = paths" and w: "written s2 = written s @ render es"
    and c: "encodable E (render es)"
    by (rule run_spec_NoneE)
  have "run_spec E out paths s None (out_close E out s2)"
  proof (rule run_spec_NoneI [where es = es])
    show "\<And>i. i \<noteq> out \<Longrightarrow> disk (out_close E out s2) i = disk s i"
      using run_spec_frame [OF assms] by (simp add: out_close_simps)
    show "entries_read E out s es" by (rule e)
    show "map fst es = paths" by (rule m)
    show "written (out_close E out s2) = written s @ render es"
      using w by (simp add: out_close_simps)
    show "encodable E (render es)" by (rule c)
  qed
  with None show ?thesis by simp
next
  case (Some x)
  with assms have "run_spec E out paths s (Some x) s2" by simp
  then obtain es p rest tail where
    e: "entries_read E out s es"
    and m: "paths = map fst es @ p # rest"
    and w: "written s2 = written s @ render es @ tail"
    and c: "encodable E (render es @ tail)"
    and f: "stopped E out s x p tail"
    by (rule run_spec_SomeE)
  have "run_spec E out paths s (Some x) (out_close E out s2)"
  proof (rule run_spec_SomeI [where es = es and p = p and rest = rest and tail = tail])
    show "\<And>i. i \<noteq> out \<Longrightarrow> disk (out_close E out s2) i = disk s i"
      using run_spec_frame [OF assms] by (simp add: out_close_simps)
    show "entries_read E out s es" by (rule e)
    show "paths = map fst es @ p # rest" by (rule m)
    show "written (out_close E out s2) = written s @ render es @ tail"
      using w by (simp add: out_close_simps)
    show "encodable E (render es @ tail)" by (rule c)
    show "stopped E out s x p tail" by (rule f)
  qed
  with Some show ?thesis by simp
qed

lemma output_block_closed:
  assumes "open_write E s output_file = Inr s0"
    and "output_block E ps output_file paths root s = (r, s')"
  shows "disk s' (inode E output_file) = Regular (encoded E (written s'))"
proof -
  obtain r1 s1 where l: "wildcard_loop E ps (inode E output_file) paths s0 = (r1, s1)"
    by (cases "wildcard_loop E ps (inode E output_file) paths s0")
  obtain r2 s2 where
    w: "walk E ps (inode E output_file) root (scandir_tree E root) s1 = (r2, s2)"
    by (cases "walk E ps (inode E output_file) root (scandir_tree E root) s1")
  show ?thesis
  proof (cases r1)
    case None
    with assms l w have "s' = out_close E (inode E output_file) s2"
      by (simp add: output_block_def Let_def)
    then show ?thesis by (simp add: out_close_simps)
  next
    case (Some e)
    with assms l have "s' = out_close E (inode E output_file) s1"
      by (simp add: output_block_def Let_def)
    then show ?thesis by (simp add: out_close_simps)
  qed
qed

lemma output_block_spec:
  assumes "open_write E s output_file = Inr s0"
    and "output_block E ps output_file paths root s = (r, s')"
  shows "run_spec E (inode E output_file) (entry_paths E ps paths root) s0 r s'"
proof -
  obtain r1 s1 where l: "wildcard_loop E ps (inode E output_file) paths s0 = (r1, s1)"
    by (cases "wildcard_loop E ps (inode E output_file) paths s0")
  obtain r2 s2 where
    w: "walk E ps (inode E output_file) root (scandir_tree E root) s1 = (r2, s2)"
    by (cases "walk E ps (inode E output_file) root (scandir_tree E root) s1")
  have 1: "run_spec E (inode E output_file) (not_ignored ps paths) s0 r1 s1"
    using l by (rule wildcard_loop_spec)
  show ?thesis
  proof (cases r1)
    case None
    with assms l w have r: "r = r2" and s': "s' = out_close E (inode E output_file) s2"
      by (simp_all add: output_block_def Let_def)
    have 2: "run_spec E (inode E output_file) (walk_paths ps root (scandir_tree E root)) s1 r2 s2"
      using w by (rule walk_spec)
    from 1 None have "run_spec E (inode E output_file) (not_ignored ps paths) s0 None s1" by simp
    then have "run_spec E (inode E output_file) (entry_paths E ps paths root) s0 r2 s2"
      unfolding entry_paths_def using 2 by (rule run_spec_append)
    then show ?thesis unfolding r s' by (rule run_spec_close)
  next
    case (Some e)
    with assms l have r: "r = Some e" and s': "s' = out_close E (inode E output_file) s1"
      by (simp_all add: output_block_def Let_def)
    from 1 Some have "run_spec E (inode E output_file) (not_ignored ps paths) s0 (Some e) s1"
      by simp
    then have "run_spec E (inode E output_file) (entry_paths E ps paths root) s0 (Some e) s1"
      unfolding entry_paths_def by (rule run_spec_fail)
    then show ?thesis unfolding r s' by (rule run_spec_close)
  qed
qed


lemma write_files_to_output_block:
  assumes "read_gitignore E s (str ''.gitignore'') = Inr lines"
  shows "write_files_to_output E root_dir output_file ap wfs s =
     output_block E (lines @ or_empty ap) output_file
       (or_empty wfs) root_dir s"
  by (simp add: write_files_to_output_def assms)

subsection \<open>The call and the script\<close>

lemma or_empty_simps: "or_empty None = []" "or_empty (Some l) = l"
  by (simp_all add: or_empty_def)

lemma glob_loop_concat:
  "glob_loop E acc pats = acc @ concat (map (glob E) pats)"
  by (induction pats arbitrary: acc) simp_all

lemma main_block:
  "main E a s =
     (case read_gitignore E s (str ''.gitignore'') of
        Inl e \<Rightarrow> (Some e, s)
      | Inr lines \<Rightarrow>
          output_block E (lines @ additional_patterns) (args_output a)
            (concat (map (glob E) (wildcard_patterns a))) (root_directory a) s)"
  by (simp add: main_def write_files_to_output_def or_empty_simps glob_loop_concat
      cong: sum.case_cong)

lemma read_gitignore_disk:
  assumes "disk s1 (inode E p) = disk s (inode E p)"
  shows "read_gitignore E s1 p = read_gitignore E s p"
  unfolding read_gitignore_def path_exists_def read_text_disk [OF assms] assms by (rule refl)

section \<open>The small world, evaluated\<close>

lemma ex_env_simps:
  "inode ex_env = ex_inode"
  "read_refused ex_env = (\<lambda>i. None)"
  "write_refused ex_env = (\<lambda>i. None)"
  "scandir_tree ex_env (str ''.'') = ex_tree"
  "glob ex_env (str ''*.txt'') = [str ''a.txt'']"
  "locale_decode ex_env = latin1_decode"
  "locale_encode ex_env = latin1_encode"
  "flushed ex_env = (\<lambda>t. 0)"
  by (simp_all add: ex_env_def)

lemma ex_ascii_simps:
  "inode ex_ascii = ex_inode"
  "read_refused ex_ascii = (\<lambda>i. None)"
  "write_refused ex_ascii = (\<lambda>i. None)"
  "scandir_tree ex_ascii (str ''.'') = ex_tree"
  "locale_decode ex_ascii = ascii_decode"
  "locale_encode ex_ascii = ascii_encode"
  "flushed ex_ascii = (\<lambda>t. 0)"
  by (simp_all add: ex_ascii_def ex_env_def)

lemma ex_utf8_simps:
  "inode ex_utf8 = ex_inode"
  "read_refused ex_utf8 = (\<lambda>i. None)"
  "locale_decode ex_utf8 = utf8_decode"
  "locale_encode ex_utf8 = utf8_encode"
  by (simp_all add: ex_utf8_def ex_env_def)

lemma ex_state_simps:
  "disk ex_state = ex_disk" "written ex_state = []" "stdout ex_state = []"
  "disk ex_opened = ex_disk(2 := Regular [])" "written ex_opened = []" "stdout ex_opened = []"
  "disk ex_state_dir = ex_disk(7 := Directory)"
  "disk ex_state_undecodable = ex_disk(7 := Regular [111, 107, 10, 255, 10])"
  by (simp_all add: ex_state_def ex_opened_def ex_state_dir_def ex_state_undecodable_def)

lemma ex_inode_simps:
  "ex_inode (str ''.gitignore'') = 7"
  "ex_inode (str ''output.txt'') = 2"
  "ex_inode (str ''./output.txt'') = 2"
  "ex_inode (str ''a.txt'') = 3"
  "ex_inode (str ''./a.txt'') = 3"
  "ex_inode (str ''./node_modules/inner.txt'') = 4"
  "ex_inode (str ''./bad.bin'') = 5"
  "ex_inode (str ''./secret.txt'') = 6"
  "ex_inode (str ''/tmp/euro.txt'') = 8"
  "ex_inode (str ''missing.txt'') = 0"
  by (simp_all add: ex_inode_def str_def)

lemma ex_disk_simps:
  "ex_disk 0 = Absent"
  "ex_disk 7 = Regular (map of_nat (str ''# mine'' @ [cr, newline] @ str '' secret.txt '' @ [newline]))"
  "ex_disk 2 = Regular (map of_nat (str ''old''))"
  "ex_disk 3 = Regular (map of_nat (str ''hi''))"
  "ex_disk 4 = Regular (map of_nat (str ''x''))"
  "ex_disk 5 = Regular [255]"
  "ex_disk 6 = Regular (map of_nat (str ''s''))"
  "ex_disk 8 = Regular [226, 130, 172]"
  by (simp_all add: ex_disk_def)

lemmas ex_world = ex_env_simps ex_state_simps ex_inode_simps ex_disk_simps

lemma ex_decode:
  "utf8_decode (map of_nat (str ''hi'')) = Some (str ''hi'')"
  "utf8_decode [] = Some []"
  "utf8_decode [255] = None"
  "utf8_decode [226, 130, 172] = Some [8364]"
  "latin1_decode [255] = Some [255]"
  "universal_newlines (str ''hi'') = str ''hi''"
  "universal_newlines [] = []"
  "universal_newlines [255] = [255]"
  "universal_newlines [8364] = [8364]"
  by (simp_all add: str_def unat_of_nat latin1_decode_def char_defs cont_def low6_def)

lemma str_below_256: "list_all (\<lambda>c. c < 256) (str s)"
  by (simp add: str_def list_all_iff nat_of_char_less_256)

lemma universal_newlines_set:
  "set (universal_newlines t) \<subseteq> insert newline (set t)"
  by (induction t rule: universal_newlines.induct) auto

lemma ex_encodable:
  "encodable ex_env (str s)"
  "encodable ex_env [newline]"
  "encodable ex_env [newline, newline]"
  "encodable ex_env [255]"
  "\<not> encodable ex_env [8364]"
  using str_below_256 [of s]
  by (simp_all add: encodable_def ex_world latin1_encode_def newline_def list_all_iff)

lemma ex_ascii_encodable:
  "encodable ex_ascii (str ''./a.txt'')"
  "encodable ex_ascii (str ''./bad.bin'')"
  "encodable ex_ascii (str ''hi'')"
  "encodable ex_ascii [newline]"
  "encodable ex_ascii [newline, newline]"
  "\<not> encodable ex_ascii [255]"
  by (simp_all add: encodable_def ex_ascii_simps ascii_encode_def newline_def str_def)

lemma ex_gitignore:
  "read_gitignore ex_env ex_state (str ''.gitignore'') = Inr [str ''secret.txt'']"
  by (simp add: read_gitignore_def path_exists_def read_text_def open_read_def ex_world
      latin1_decode_def)
     (simp add: str_def char_defs Let_def strip_def is_space_def startswith_def unat_of_nat)

lemma ex_ascii_gitignore:
  "read_gitignore ex_ascii ex_state (str ''.gitignore'') = Inr [str ''secret.txt'']"
  by (simp add: read_gitignore_def path_exists_def read_text_def open_read_def ex_world
      ex_ascii_simps ascii_decode_def)
     (simp add: str_def char_defs Let_def strip_def is_space_def startswith_def unat_of_nat)

text \<open>Under a UTF-8 locale, an ignore file with the byte \<open>0xFF\<close> cannot be read.\<close>

lemma ex_undecodable_gitignore:
  "read_gitignore ex_utf8 ex_state_undecodable (str ''.gitignore'') = Inl UnicodeDecodeError"
  by (simp add: read_gitignore_def path_exists_def read_text_def open_read_def ex_utf8_simps
      ex_state_simps ex_inode_simps)

lemma ex_match:
  "any_pattern_matches (str ''a.txt'') ex_pats = False"
  "any_pattern_matches (str ''missing.txt'') ex_pats = False"
  "any_pattern_matches (str ''/tmp/euro.txt'') ex_pats = False"
  "any_pattern_matches (str ''./a.txt'') ex_pats = False"
  "any_pattern_matches (str ''./bad.bin'') ex_pats = False"
  "any_pattern_matches (str ''./output.txt'') ex_pats = False"
  "any_pattern_matches (str ''./secret.txt'') ex_pats = True"
  "any_pattern_matches (str ''./node_modules'') ex_pats = True"
  by (simp_all add: ex_pats_def fnmatch_def translate_def str_def char_defs)

lemma ex_join:
  "join (str ''.'') (str ''a.txt'') = str ''./a.txt''"
  "join (str ''.'') (str ''bad.bin'') = str ''./bad.bin''"
  "join (str ''.'') (str ''output.txt'') = str ''./output.txt''"
  "join (str ''.'') (str ''secret.txt'') = str ''./secret.txt''"
  "join (str ''.'') (str ''node_modules'') = str ''./node_modules''"
  by (simp_all add: join_def startswith_def str_def char_defs)

lemma ex_open: "open_write ex_env ex_state (str ''output.txt'') = Inr ex_opened"
  by (simp add: open_write_def ex_world ex_opened_def)

lemma ex_ascii_open: "open_write ex_ascii ex_state (str ''output.txt'') = Inr ex_opened"
  by (simp add: open_write_def ex_world ex_ascii_simps ex_opened_def)

lemmas ex_eval =
  ex_world ex_decode ex_match ex_join ex_encodable encodable_simps(1,3) write_entry_def
  is_ignored_def out_write_def out_close_def read_file_contents_def read_text_def
  open_read_def cr_def Let_def cont_def low6_def

text \<open>The walk of that world writes three files and leaves \<open>node_modules\<close> alone.\<close>

lemma ex_walk:
  "walk ex_env ex_pats 2 (str ''.'')
     (Dir [(str ''node_modules'', NoScan)]
          [str ''a.txt'', str ''bad.bin'', str ''output.txt'', str ''secret.txt'']) ex_opened =
   (None,
    ex_opened
      \<lparr>stdout := [str ''./a.txt'', str ''./bad.bin'', str ''./output.txt''],
       written := str ''./a.txt'' @ [newline] @ str ''hi'' @ [newline, newline] @
                  str ''./bad.bin'' @ [newline] @ [255] @ [newline, newline] @
                  str ''./output.txt'' @ [newline] @ [newline, newline],
       disk := ex_disk(2 := Regular [])\<rparr>)"
  by (simp add: ex_eval)

text \<open>A run of \<open>write_files_to_output\<close> in that world, with one wildcard file.\<close>

lemma ex_block:
  "output_block ex_env ex_pats (str ''output.txt'') [str ''a.txt''] (str ''.'') ex_state =
   (None,
    ex_state
      \<lparr>stdout := [str ''a.txt'', str ''./a.txt'', str ''./bad.bin'', str ''./output.txt''],
       written := ex_text,
       disk := ex_disk(2 := Regular (encoded ex_env ex_text))\<rparr>)"
  by (simp add: output_block_def ex_open ex_opened_def ex_tree_def ex_eval ex_text_def)

lemma ex_run:
  "write_files_to_output ex_env (str ''.'') (str ''output.txt'') (Some [str ''node_modules''])
     (Some [str ''a.txt'']) ex_state =
   (None,
    ex_state
      \<lparr>stdout := [str ''a.txt'', str ''./a.txt'', str ''./bad.bin'', str ''./output.txt''],
       written := ex_text,
       disk := ex_disk(2 := Regular (encoded ex_env ex_text))\<rparr>)"
  using ex_block
  by (simp add: write_files_to_output_block [OF ex_gitignore] or_empty_simps ex_pats_def)

text \<open>A run whose second wildcard file does not exist.\<close>

lemma ex_fail:
  "write_files_to_output ex_env (str ''.'') (str ''output.txt'') (Some [str ''node_modules''])
     (Some [str ''a.txt'', str ''missing.txt'']) ex_state =
   (Some (OSError ENOENT),
    ex_state
      \<lparr>stdout := [str ''a.txt'', str ''missing.txt''],
       written := ex_partial,
       disk := ex_disk(2 := Regular (encoded ex_env ex_partial))\<rparr>)"
proof -
  have "output_block ex_env ex_pats (str ''output.txt'') [str ''a.txt'', str ''missing.txt'']
      (str ''.'') ex_state =
    (Some (OSError ENOENT),
     ex_state
      \<lparr>stdout := [str ''a.txt'', str ''missing.txt''],
       written := ex_partial,
       disk := ex_disk(2 := Regular (encoded ex_env ex_partial))\<rparr>)"
    by (simp add: output_block_def ex_open ex_opened_def ex_eval ex_partial_def)
  then show ?thesis
    by (simp add: write_files_to_output_block [OF ex_gitignore] or_empty_simps ex_pats_def)
qed


text \<open>The same directory under the ASCII locale: the run stops at \<open>bad.bin\<close>.\<close>

lemma ex_ascii_run:
  "write_files_to_output ex_ascii (str ''.'') (str ''output.txt'') (Some [str ''node_modules''])
     None ex_state =
   (Some UnicodeEncodeError,
    ex_state
      \<lparr>stdout := [str ''./a.txt'', str ''./bad.bin''],
       written := str ''./a.txt'' @ [newline] @ str ''hi'' @ [newline, newline] @
                  str ''./bad.bin'' @ [newline],
       disk := ex_disk(2 := Regular (encoded ex_ascii
                  (str ''./a.txt'' @ [newline] @ str ''hi'' @ [newline, newline] @
                   str ''./bad.bin'' @ [newline])))\<rparr>)"
proof -
  have "output_block ex_ascii ex_pats (str ''output.txt'') [] (str ''.'') ex_state =
    (Some UnicodeEncodeError,
     ex_state
      \<lparr>stdout := [str ''./a.txt'', str ''./bad.bin''],
       written := str ''./a.txt'' @ [newline] @ str ''hi'' @ [newline, newline] @
                  str ''./bad.bin'' @ [newline],
       disk := ex_disk(2 := Regular (encoded ex_ascii
                  (str ''./a.txt'' @ [newline] @ str ''hi'' @ [newline, newline] @
                   str ''./bad.bin'' @ [newline])))\<rparr>)"
    by (simp add: output_block_def ex_ascii_open ex_opened_def ex_tree_def ex_ascii_simps
        ex_state_simps ex_inode_simps ex_disk_simps ex_decode ex_match ex_join
        ex_ascii_encodable encodable_simps(1,3) write_entry_def is_ignored_def out_write_def
        out_close_def read_file_contents_def read_text_def open_read_def cr_def Let_def)
  then show ?thesis
    by (simp add: write_files_to_output_block [OF ex_ascii_gitignore] or_empty_simps ex_pats_def)
qed

text \<open>The script itself in that world, with the built-in patterns.\<close>

lemma ex_builtin_match:
  "any_pattern_matches (str ''a.txt'') (str ''secret.txt'' # additional_patterns) = False"
  "any_pattern_matches (str ''./a.txt'') (str ''secret.txt'' # additional_patterns) = False"
  "any_pattern_matches (str ''./bad.bin'') (str ''secret.txt'' # additional_patterns) = False"
  "any_pattern_matches (str ''./output.txt'') (str ''secret.txt'' # additional_patterns) = False"
  "any_pattern_matches (str ''./secret.txt'') (str ''secret.txt'' # additional_patterns) = True"
  "any_pattern_matches (str ''./node_modules'') (str ''secret.txt'' # additional_patterns) = True"
  by (simp_all add: additional_patterns_def fnmatch_def translate_def str_def char_defs)

lemma ex_main:
  "main ex_env ex_args ex_state =
   (None,
    ex_state
      \<lparr>stdout := [str ''a.txt'', str ''./a.txt'', str ''./bad.bin'', str ''./output.txt''],
       written := ex_text,
       disk := ex_disk(2 := Regular (encoded ex_env ex_text))\<rparr>)"
proof -
  have "output_block ex_env (str ''secret.txt'' # additional_patterns) (str ''output.txt'')
      [str ''a.txt''] (str ''.'') ex_state =
    (None,
     ex_state
      \<lparr>stdout := [str ''a.txt'', str ''./a.txt'', str ''./bad.bin'', str ''./output.txt''],
       written := ex_text,
       disk := ex_disk(2 := Regular (encoded ex_env ex_text))\<rparr>)"
    by (simp add: output_block_def ex_open ex_opened_def ex_tree_def ex_world ex_decode
        ex_builtin_match ex_join ex_encodable encodable_simps(1,3) write_entry_def
        is_ignored_def out_write_def out_close_def
        read_file_contents_def read_text_def open_read_def cr_def Let_def ex_text_def
        del: any_pattern_matches.simps)
  then show ?thesis
    by (simp add: main_block ex_gitignore ex_args_def ex_world)
qed

section \<open>The path filter decides by the patterns alone\<close>

lemma re_match_star:
  "re_match (STAR # ts) s \<longleftrightarrow> (\<exists>a b. s = a @ b \<and> re_match ts b)"
proof (induction s)
  case Nil
  then show ?case by simp
next
  case (Cons c cs)
  show ?case
  proof
    assume "re_match (STAR # ts) (c # cs)"
    then consider "re_match ts (c # cs)" | "re_match (STAR # ts) cs" by auto
    then show "\<exists>a b. c # cs = a @ b \<and> re_match ts b"
    proof cases
      case 1
      then have "c # cs = [] @ (c # cs) \<and> re_match ts (c # cs)" by simp
      then show ?thesis by blast
    next
      case 2
      with Cons.IH obtain a b where "cs = a @ b" "re_match ts b" by blast
      then have "c # cs = (c # a) @ b \<and> re_match ts b" by simp
      then show ?thesis by blast
    qed
  next
    assume "\<exists>a b. c # cs = a @ b \<and> re_match ts b"
    then obtain a b where ab: "c # cs = a @ b" "re_match ts b" by blast
    show "re_match (STAR # ts) (c # cs)"
    proof (cases a)
      case Nil
      with ab have "re_match ts (c # cs)" by simp
      then show ?thesis by simp
    next
      case (Cons x xs)
      with ab have "cs = xs @ b" by simp
      with ab(2) Cons.IH have "re_match (STAR # ts) cs" by blast
      then show ?thesis by simp
    qed
  qed
qed

lemma re_match_lit:
  "re_match (LIT a # ts) s \<longleftrightarrow> (\<exists>b. s = a # b \<and> re_match ts b)"
  by (cases s) auto

lemma translate_star_slash:
  "translate (str ''*/'' @ pat) = STAR # LIT slash # translate pat"
  by (simp add: translate_def str_def char_defs)

lemma fnmatch_star_slash:
  "fnmatch path (str ''*/'' @ pattern) \<longleftrightarrow>
   (\<exists>d b. path = d @ slash # b \<and> fnmatch b pattern)"
  unfolding fnmatch_def translate_star_slash re_match_star re_match_lit
  by auto

lemma any_pattern_matches_iff:
  "any_pattern_matches path patterns \<longleftrightarrow>
   (\<exists>pattern \<in> set patterns.
      fnmatch path pattern \<or> fnmatch path (str ''*/'' @ pattern))"
  by (induction patterns) auto

text \<open>
  C1, as the program has it. \<open>is_ignored\<close> returns true exactly when some
  pattern of the sequence matches the whole path, or matches what follows some
  \<open>/\<close> of the path: any \<open>/\<close>, not the last one only, so that the pattern is
  compared with every tail of the path that starts after a \<open>/\<close>, and a tail
  may hold several components (in both matches \<open>*\<close> stands for \<open>/\<close> too).
  The pattern \<open>*.py\<close> excludes \<open>foo.py\<close> and \<open>dir/foo.py\<close>; the pattern
  \<open>.git\<close> excludes \<open>.git\<close> and \<open>sub/.git\<close> and does not exclude
  \<open>.github\<close>.
\<close>

theorem is_ignored_iff:
  "(fst (is_ignored P S printed) \<longleftrightarrow>
      (\<exists>pattern \<in> set S.
         fnmatch P pattern \<or> (\<exists>d b. P = d @ slash # b \<and> fnmatch b pattern)))
   \<and> fst (is_ignored (str ''foo.py'') [str ''*.py''] printed)
   \<and> fst (is_ignored (str ''dir/foo.py'') [str ''*.py''] printed)
   \<and> fst (is_ignored (str ''.git'') [str ''.git''] printed)
   \<and> fst (is_ignored (str ''sub/.git'') [str ''.git''] printed)
   \<and> \<not> fst (is_ignored (str ''.github'') [str ''.git''] printed)"
proof -
  have general: "fst (is_ignored P S printed) \<longleftrightarrow>
      (\<exists>pattern \<in> set S.
         fnmatch P pattern \<or> (\<exists>d b. P = d @ slash # b \<and> fnmatch b pattern))"
    by (simp add: is_ignored_def any_pattern_matches_iff fnmatch_star_slash)
  have py: "translate (str ''*.py'') = [STAR, LIT 46, LIT 112, LIT 121]"
    by (simp add: translate_def str_def char_defs)
  have git: "translate (str ''.git'') = [LIT 46, LIT 103, LIT 105, LIT 116]"
    by (simp add: translate_def str_def char_defs)
  have sgit: "translate (str ''*/'' @ str ''.git'') = [STAR, LIT 47, LIT 46, LIT 103, LIT 105, LIT 116]"
    by (simp add: translate_def str_def char_defs)
  have 1: "fst (is_ignored (str ''foo.py'') [str ''*.py''] printed)"
    by (simp add: is_ignored_def fnmatch_def py) (simp add: str_def)
  have 2: "fst (is_ignored (str ''dir/foo.py'') [str ''*.py''] printed)"
    by (simp add: is_ignored_def fnmatch_def py) (simp add: str_def)
  have 3: "fst (is_ignored (str ''.git'') [str ''.git''] printed)"
    by (simp add: is_ignored_def fnmatch_def git) (simp add: str_def)
  have 4: "fst (is_ignored (str ''sub/.git'') [str ''.git''] printed)"
    by (simp add: is_ignored_def fnmatch_def git sgit) (simp add: str_def)
  have 5: "\<not> fst (is_ignored (str ''.github'') [str ''.git''] printed)"
    by (simp add: is_ignored_def fnmatch_def git sgit) (simp add: str_def)
  from general 1 2 3 4 5 show ?thesis by blast
qed

theorem is_ignored_iff_witness:
  "fst (is_ignored (str ''a/b/.git'') [str ''*.py'', str ''.git''] [])
   \<and> fnmatch (str ''.git'') (str ''.git'')
   \<and> str ''a/b/.git'' = str ''a/b'' @ slash # str ''.git''"
proof -
  have m: "fnmatch (str ''.git'') (str ''.git'')"
    by (simp add: fnmatch_def translate_def str_def char_defs)
  have e: "str ''a/b/.git'' = str ''a/b'' @ slash # str ''.git''"
    by (simp add: str_def char_defs)
  have "\<exists>pattern \<in> set [str ''*.py'', str ''.git''].
      fnmatch (str ''a/b/.git'') pattern \<or>
      (\<exists>d b. str ''a/b/.git'' = d @ slash # b \<and> fnmatch b pattern)"
    using m e by auto
  with is_ignored_iff [of "str ''a/b/.git''" "[str ''*.py'', str ''.git'']" "[]"] m e
  show ?thesis by blast
qed

text \<open>
  The rule with the match anchored at the base name is another one. The
  pattern \<open>b*\<close> excludes \<open>a/b/c/d.txt\<close>, whose base name \<open>d.txt\<close> it does
  not match: it matches the tail \<open>b/c/d.txt\<close>. The pattern \<open>b/c\<close> excludes
  \<open>a/b/c\<close>, whose base name is \<open>c\<close>.
\<close>

theorem is_ignored_not_basename_anchored:
  "fst (is_ignored (str ''a/b/c/d.txt'') [str ''b*''] [])
   \<and> \<not> fnmatch (str ''a/b/c/d.txt'') (str ''b*'')
   \<and> basename (str ''a/b/c/d.txt'') = str ''d.txt''
   \<and> \<not> fnmatch (str ''d.txt'') (str ''b*'')
   \<and> \<not> claimed_is_ignored (str ''a/b/c/d.txt'') [str ''b*'']
   \<and> fst (is_ignored (str ''a/b/c'') [str ''b/c''] [])
   \<and> basename (str ''a/b/c'') = str ''c''
   \<and> \<not> claimed_is_ignored (str ''a/b/c'') [str ''b/c'']"
  by (simp add: is_ignored_def claimed_is_ignored_def basename_def fnmatch_def translate_def
      str_def char_defs)

section \<open>Excluded directories are never entered\<close>

text \<open>
  C2. The walk of a directory tree is the walk of the tree from which the
  listing of every excluded directory has been taken away, at any depth: same
  exception, same output, same files afterwards, same lines printed. Whatever
  lies under an excluded directory is never looked at, and no file there gets
  an entry.
\<close>

theorem walk_never_descends_excluded:
  "walk E patterns out root t s = walk E patterns out root (prune patterns root t) s"
  by (simp add: walk_prune_aux(1))

theorem walk_never_descends_excluded_witness:
  "prune ex_pats (str ''.'') ex_tree =
     Dir [(str ''node_modules'', NoScan)]
         [str ''a.txt'', str ''bad.bin'', str ''output.txt'', str ''secret.txt'']
   \<and> fst (walk ex_env ex_pats 2 (str ''.'') ex_tree ex_opened) = None
   \<and> written (snd (walk ex_env ex_pats 2 (str ''.'') ex_tree ex_opened)) =
       str ''./a.txt'' @ [newline] @ str ''hi'' @ [newline, newline] @
       str ''./bad.bin'' @ [newline] @ [255] @ [newline, newline] @
       str ''./output.txt'' @ [newline] @ [newline, newline]"
proof -
  have p: "prune ex_pats (str ''.'') ex_tree =
     Dir [(str ''node_modules'', NoScan)]
         [str ''a.txt'', str ''bad.bin'', str ''output.txt'', str ''secret.txt'']"
    by (simp add: ex_tree_def ex_join ex_match)
  have w: "walk ex_env ex_pats 2 (str ''.'') ex_tree ex_opened =
    (None,
     ex_opened
       \<lparr>stdout := [str ''./a.txt'', str ''./bad.bin'', str ''./output.txt''],
        written := str ''./a.txt'' @ [newline] @ str ''hi'' @ [newline, newline] @
                   str ''./bad.bin'' @ [newline] @ [255] @ [newline, newline] @
                   str ''./output.txt'' @ [newline] @ [newline, newline],
        disk := ex_disk(2 := Regular [])\<rparr>)"
    using walk_never_descends_excluded [of ex_env ex_pats 2 "str ''.''" ex_tree ex_opened]
    unfolding p ex_walk .
  show ?thesis unfolding w by (simp add: p)
qed

section \<open>Reading a file, and writing what was read\<close>

lemma latin1_reading_encodable:
  assumes "\<forall>c<256. locale_encode E c \<noteq> None"
  shows "encodable E (universal_newlines (map unat (bs :: byte list)))"
proof -
  have "\<And>x. x \<in> set (universal_newlines (map unat bs)) \<Longrightarrow> x < 256"
  proof -
    fix x assume "x \<in> set (universal_newlines (map unat bs))"
    with universal_newlines_set [of "map unat bs"]
    have "x = newline \<or> x \<in> set (map unat bs)" by auto
    then show "x < 256"
    proof
      assume "x = newline"
      then show ?thesis by (simp add: newline_def)
    next
      assume "x \<in> set (map unat bs)"
      then obtain b :: byte where "x = unat b" by auto
      with unsigned_less [of b, where 'a = nat] show ?thesis by simp
    qed
  qed
  with assms show ?thesis by (simp add: encodable_def list_all_iff)
qed

text \<open>
  C3, as the program has it. \<open>read_file_contents\<close> gives the UTF-8 reading of
  the file when its bytes are valid UTF-8 and the Latin-1 reading, which exists
  for every byte sequence, exactly when they are not; so a file that can be
  opened always yields a string, and an error of the open itself comes out as
  it is. Whether the file is then written is up to the encoder of the output
  file, which is the one of the locale: the entry of a file that is not
  excluded is written when the encoder has bytes for the path line and for the
  text read, and otherwise the write raises \<open>UnicodeEncodeError\<close>, before
  the path line or after it. An encoder that has bytes for every code point
  below 256, as those of UTF-8 and Latin-1 have, accepts every Latin-1
  reading.
\<close>

theorem invalid_utf8_written_when_encodable:
  "read_file_contents E s file_path =
     (case open_read E s file_path of
        Inl e \<Rightarrow> Inl e
      | Inr bs \<Rightarrow>
          (case utf8_decode bs of
             Some t \<Rightarrow> Inr (universal_newlines t)
           | None \<Rightarrow> Inr (universal_newlines (map unat bs))))
   \<and> (\<not> any_pattern_matches file_path patterns \<longrightarrow> inode E file_path \<noteq> out \<longrightarrow>
        fst (write_entry E patterns out file_path s) =
          (if \<not> encodable E (file_path @ [newline]) then Some UnicodeEncodeError
           else case read_file_contents E s file_path of
                  Inl e \<Rightarrow> Some e
                | Inr c \<Rightarrow> if encodable E c then None else Some UnicodeEncodeError)
        \<and> written (snd (write_entry E patterns out file_path s)) =
            written s @
            (if \<not> encodable E (file_path @ [newline]) then []
             else file_path @ [newline] @
                  (case read_file_contents E s file_path of
                     Inl e \<Rightarrow> []
                   | Inr c \<Rightarrow> if encodable E c then c @ [newline, newline] else [])))
   \<and> ((\<forall>c<256. locale_encode E c \<noteq> None) \<longrightarrow>
        open_read E s file_path = Inr bs \<longrightarrow> utf8_decode bs = None \<longrightarrow>
        read_file_contents E s file_path = Inr (universal_newlines (map unat bs))
        \<and> encodable E (universal_newlines (map unat bs)))
   \<and> (\<forall>c<256. utf8_encode c \<noteq> None) \<and> (\<forall>c<256. latin1_encode c \<noteq> None)"
proof -
  have 1: "read_file_contents E s file_path =
     (case open_read E s file_path of
        Inl e \<Rightarrow> Inl e
      | Inr bs \<Rightarrow>
          (case utf8_decode bs of
             Some t \<Rightarrow> Inr (universal_newlines t)
           | None \<Rightarrow> Inr (universal_newlines (map unat bs))))"
    by (rule read_file_contents_cases)
  have 2: "fst (write_entry E patterns out file_path s) =
          (if \<not> encodable E (file_path @ [newline]) then Some UnicodeEncodeError
           else case read_file_contents E s file_path of
                  Inl e \<Rightarrow> Some e
                | Inr c \<Rightarrow> if encodable E c then None else Some UnicodeEncodeError)
        \<and> written (snd (write_entry E patterns out file_path s)) =
            written s @
            (if \<not> encodable E (file_path @ [newline]) then []
             else file_path @ [newline] @
                  (case read_file_contents E s file_path of
                     Inl e \<Rightarrow> []
                   | Inr c \<Rightarrow> if encodable E c then c @ [newline, newline] else []))"
    if no: "\<not> any_pattern_matches file_path patterns" and ne: "inode E file_path \<noteq> out"
  proof -
    let ?s1 = "after_write E out (file_path @ [newline]) (s\<lparr>stdout := stdout s @ [file_path]\<rparr>)"
    have rd: "read_file_contents E ?s1 file_path = read_file_contents E s file_path"
      by (rule read_file_contents_disk) (simp add: after_write_simps ne)
    show ?thesis
    proof (cases "read_file_contents E s file_path")
      case (Inl e)
      then show ?thesis
        by (simp add: write_entry_cases [OF no] rd after_write_simps)
    next
      case (Inr c)
      then show ?thesis
        by (simp add: write_entry_cases [OF no] rd after_write_simps)
    qed
  qed
  have 3: "read_file_contents E s file_path = Inr (universal_newlines (map unat bs))
        \<and> encodable E (universal_newlines (map unat bs))"
    if "\<forall>c<256. locale_encode E c \<noteq> None" and "open_read E s file_path = Inr bs"
      and "utf8_decode bs = None"
    using that latin1_reading_encodable [of E bs] by (simp add: read_file_contents_cases)
  have 4: "\<forall>c<256. utf8_encode c \<noteq> None" by (simp add: utf8_encode_def)
  have 5: "\<forall>c<256. latin1_encode c \<noteq> None" by (simp add: latin1_encode_def)
  from 1 2 3 4 5 show ?thesis by blast
qed

theorem invalid_utf8_written_when_encodable_witness:
  "open_read ex_env ex_opened (str ''./bad.bin'') = Inr [255]
   \<and> utf8_decode [255] = None
   \<and> \<not> any_pattern_matches (str ''./bad.bin'') ex_pats
   \<and> inode ex_env (str ''./bad.bin'') \<noteq> 2
   \<and> \<not> (\<exists>c<256. locale_encode ex_env c = None)
   \<and> read_file_contents ex_env ex_opened (str ''./bad.bin'') = Inr [255]
   \<and> encodable ex_env [255]
   \<and> fst (write_entry ex_env ex_pats 2 (str ''./bad.bin'') ex_opened) = None
   \<and> written (snd (write_entry ex_env ex_pats 2 (str ''./bad.bin'') ex_opened)) =
       str ''./bad.bin'' @ [newline] @ [255] @ [newline, newline]
   \<and> read_file_contents ex_env ex_opened (str ''./a.txt'') = Inr (str ''hi'')
   \<and> read_file_contents ex_env ex_opened (str ''missing.txt'') = Inl (OSError ENOENT)"
proof -
  have o: "open_read ex_env ex_opened (str ''./bad.bin'') = Inr [255]"
    "open_read ex_env ex_opened (str ''./a.txt'') = Inr (map of_nat (str ''hi''))"
    "open_read ex_env ex_opened (str ''missing.txt'') = Inl (OSError ENOENT)"
    by (simp_all add: open_read_def ex_world)
  have m: "\<not> any_pattern_matches (str ''./bad.bin'') ex_pats" by (simp add: ex_match)
  have i: "inode ex_env (str ''./bad.bin'') \<noteq> 2" by (simp add: ex_world)
  have l: "\<forall>c<256. locale_encode ex_env c \<noteq> None" by (simp add: ex_world latin1_encode_def)
  have u: "utf8_decode [255] = None" by (simp add: ex_decode)
  have n: "universal_newlines (map unat [255 :: byte]) = [255]" by (simp add: cr_def)
  note t = invalid_utf8_written_when_encodable [of ex_env ex_opened "str ''./bad.bin''" ex_pats 2
      "[255]"]
  note t2 = t [THEN conjunct2, THEN conjunct1, rule_format, OF m i]
  note t3 = t [THEN conjunct2, THEN conjunct2, THEN conjunct1, rule_format, OF l [rule_format] o(1) u]
  from t3 have b: "read_file_contents ex_env ex_opened (str ''./bad.bin'') = Inr [255]"
    and e: "encodable ex_env [255]"
    unfolding n by simp_all
  from t2 have f: "fst (write_entry ex_env ex_pats 2 (str ''./bad.bin'') ex_opened) = None"
    and w: "written (snd (write_entry ex_env ex_pats 2 (str ''./bad.bin'') ex_opened)) =
       str ''./bad.bin'' @ [newline] @ [255] @ [newline, newline]"
    unfolding b by (simp_all add: ex_encodable encodable_simps(3) ex_world)
  from invalid_utf8_written_when_encodable [of ex_env ex_opened "str ''./a.txt''" ex_pats 2 "[]",
      THEN conjunct1] o(2)
  have a: "read_file_contents ex_env ex_opened (str ''./a.txt'') = Inr (str ''hi'')"
    by (simp add: ex_decode)
  from invalid_utf8_written_when_encodable [of ex_env ex_opened "str ''missing.txt''" ex_pats 2
      "[]", THEN conjunct1] o(3)
  have g: "read_file_contents ex_env ex_opened (str ''missing.txt'') = Inl (OSError ENOENT)"
    by simp
  from o(1) u m i l b e f w a g show ?thesis by blast
qed

text \<open>
  C3 as the specification has it, with the file written whatever the locale,
  fails under an ASCII locale: \<open>bad.bin\<close> holds the byte \<open>0xFF\<close>, its Latin-1
  reading is the character 255, and the write of that text ends the run with
  \<open>UnicodeEncodeError\<close>, the path line of \<open>bad.bin\<close> being the last thing in
  the output.
\<close>

theorem invalid_utf8_fails_under_ascii:
  "open_read ex_ascii ex_state (str ''./bad.bin'') = Inr [255]
   \<and> utf8_decode [255] = None
   \<and> read_file_contents ex_ascii ex_state (str ''./bad.bin'') = Inr [255]
   \<and> fst (write_files_to_output ex_ascii (str ''.'') (str ''output.txt'')
            (Some [str ''node_modules'']) None ex_state) = Some UnicodeEncodeError
   \<and> written (snd (write_files_to_output ex_ascii (str ''.'') (str ''output.txt'')
            (Some [str ''node_modules'']) None ex_state)) =
       str ''./a.txt'' @ [newline] @ str ''hi'' @ [newline, newline] @
       str ''./bad.bin'' @ [newline]"
  by (simp add: ex_ascii_run)
     (simp add: read_file_contents_cases open_read_def ex_ascii_simps ex_state_simps
        ex_inode_simps ex_disk_simps ex_decode cr_def)

section \<open>The output file starts empty\<close>

lemma output_block_encodable:
  assumes "open_write E s output_file = Inr s0"
    and "output_block E ps output_file paths root s = (r, s')"
  shows "encodable E (written s')"
proof -
  note spec = output_block_spec [OF assms]
  have w0: "written s0 = []" by (simp add: open_write_Inr [OF assms(1)])
  show ?thesis
  proof (cases r)
    case None
    with spec have "run_spec E (inode E output_file) (entry_paths E ps paths root) s0 None s'"
      by simp
    then obtain es where "written s' = written s0 @ render es" "encodable E (render es)"
      by (rule run_spec_NoneE)
    with w0 show ?thesis by simp
  next
    case (Some e)
    with spec have "run_spec E (inode E output_file) (entry_paths E ps paths root) s0 (Some e) s'"
      by simp
    then obtain es p rest tail where
      "written s' = written s0 @ render es @ tail" "encodable E (render es @ tail)"
      by (rule run_spec_SomeE)
    with w0 show ?thesis by simp
  qed
qed

lemma output_block_old:
  assumes "open_write E s output_file = Inr s0" and "old \<noteq> Directory"
  shows "output_block E ps output_file paths root
           (s\<lparr>disk := (disk s)(inode E output_file := old)\<rparr>) =
         output_block E ps output_file paths root s"
proof -
  let ?s2 = "s\<lparr>disk := (disk s)(inode E output_file := old)\<rparr>"
  have wr: "write_refused E (inode E output_file) = None"
    using assms(1) by (simp add: open_write_def split: fobj.splits option.splits)
  have "open_write E ?s2 output_file =
      Inr (s\<lparr>disk := (disk s)(inode E output_file := Regular []), written := []\<rparr>)"
    using assms(2) wr by (simp add: open_write_def split: fobj.splits)
  then have "open_write E ?s2 output_file = Inr s0"
    using open_write_Inr [OF assms(1)] by simp
  then show ?thesis by (simp add: output_block_def assms(1))
qed

text \<open>
  C4, as the program has it. The ignore file is read first. If that read
  raises, or if the open of the output file is refused, the call ends with that
  exception and the output file is as it was. Otherwise the output file is
  opened for writing, which empties it, before anything is written and before
  any file is read for its content: from there on the run and the state it ends
  in are the same whatever the output file held before, and the file ends as the
  encoding of the text this run wrote, every character of it encoded. When the
  ignore file is another file than the output file, the whole call is the same
  whatever the output file held.
\<close>

theorem output_file_truncated:
  "(\<forall>e. read_gitignore E s (str ''.gitignore'') = Inl e \<longrightarrow>
       write_files_to_output E root_dir output_file ap wfs s = (Some e, s))
   \<and> (\<forall>lines e. read_gitignore E s (str ''.gitignore'') = Inr lines \<longrightarrow>
         open_write E s output_file = Inl e \<longrightarrow>
         write_files_to_output E root_dir output_file ap wfs s = (Some e, s))
   \<and> (\<forall>lines s0. read_gitignore E s (str ''.gitignore'') = Inr lines \<longrightarrow>
         open_write E s output_file = Inr s0 \<longrightarrow>
         write_files_to_output E root_dir output_file ap wfs s =
           output_block E (lines @ or_empty ap) output_file (or_empty wfs) root_dir s
         \<and> (old \<noteq> Directory \<longrightarrow>
              output_block E (lines @ or_empty ap) output_file (or_empty wfs) root_dir
                (s\<lparr>disk := (disk s)(inode E output_file := old)\<rparr>) =
              output_block E (lines @ or_empty ap) output_file (or_empty wfs) root_dir s)
         \<and> (old \<noteq> Directory \<longrightarrow>
              inode E (str ''.gitignore'') \<noteq> inode E output_file \<longrightarrow>
              write_files_to_output E root_dir output_file ap wfs
                (s\<lparr>disk := (disk s)(inode E output_file := old)\<rparr>) =
              write_files_to_output E root_dir output_file ap wfs s)
         \<and> disk (snd (write_files_to_output E root_dir output_file ap wfs s))
              (inode E output_file) =
             Regular (encoded E
               (written (snd (write_files_to_output E root_dir output_file ap wfs s))))
         \<and> encodable E (written (snd (write_files_to_output E root_dir output_file ap wfs s))))"
proof (intro conjI allI impI)
  fix e assume "read_gitignore E s (str ''.gitignore'') = Inl e"
  then show "write_files_to_output E root_dir output_file ap wfs s = (Some e, s)"
    by (simp add: write_files_to_output_def)
next
  fix lines e
  assume "read_gitignore E s (str ''.gitignore'') = Inr lines"
    and "open_write E s output_file = Inl e"
  then show "write_files_to_output E root_dir output_file ap wfs s = (Some e, s)"
    by (simp add: write_files_to_output_def output_block_def)
next
  fix lines s0
  assume g: "read_gitignore E s (str ''.gitignore'') = Inr lines"
    and o: "open_write E s output_file = Inr s0"
  let ?s2 = "s\<lparr>disk := (disk s)(inode E output_file := old)\<rparr>"
  let ?b = "output_block E (lines @ or_empty ap) output_file (or_empty wfs) root_dir"
  show eq: "write_files_to_output E root_dir output_file ap wfs s = ?b s"
    by (rule write_files_to_output_block [OF g])
  show "?b ?s2 = ?b s" if "old \<noteq> Directory"
    using o that by (rule output_block_old)
  show "write_files_to_output E root_dir output_file ap wfs ?s2 =
      write_files_to_output E root_dir output_file ap wfs s"
    if old: "old \<noteq> Directory" and ne: "inode E (str ''.gitignore'') \<noteq> inode E output_file"
  proof -
    have "read_gitignore E ?s2 (str ''.gitignore'') = Inr lines"
      using read_gitignore_disk [of ?s2 E "str ''.gitignore''" s] ne g by simp
    then have "write_files_to_output E root_dir output_file ap wfs ?s2 = ?b ?s2"
      by (rule write_files_to_output_block)
    with eq output_block_old [OF o old] show ?thesis by simp
  qed
  obtain r s' where run: "?b s = (r, s')" by (cases "?b s")
  have "disk s' (inode E output_file) = Regular (encoded E (written s'))"
    using o run by (rule output_block_closed)
  with run show "disk (snd (write_files_to_output E root_dir output_file ap wfs s))
      (inode E output_file) =
      Regular (encoded E (written (snd (write_files_to_output E root_dir output_file ap wfs s))))"
    by (simp add: eq)
  have "encodable E (written s')" using o run by (rule output_block_encodable)
  with run show "encodable E
      (written (snd (write_files_to_output E root_dir output_file ap wfs s)))"
    by (simp add: eq)
qed

theorem output_file_truncated_witness:
  "read_gitignore ex_env ex_state (str ''.gitignore'') = Inr [str ''secret.txt'']
   \<and> open_write ex_env ex_state (str ''output.txt'') = Inr ex_opened
   \<and> disk ex_state (inode ex_env (str ''output.txt'')) = Regular (map of_nat (str ''old''))
   \<and> inode ex_env (str ''.gitignore'') \<noteq> inode ex_env (str ''output.txt'')
   \<and> write_files_to_output ex_env (str ''.'') (str ''output.txt'') (Some [str ''node_modules''])
        (Some [str ''a.txt''])
        (ex_state\<lparr>disk := (disk ex_state)(inode ex_env (str ''output.txt'') := Absent)\<rparr>) =
      write_files_to_output ex_env (str ''.'') (str ''output.txt'') (Some [str ''node_modules''])
        (Some [str ''a.txt'']) ex_state
   \<and> disk (snd (write_files_to_output ex_env (str ''.'') (str ''output.txt'')
        (Some [str ''node_modules'']) (Some [str ''a.txt'']) ex_state))
        (inode ex_env (str ''output.txt'')) =
      Regular (encoded ex_env ex_text)
   \<and> encodable ex_env ex_text
   \<and> read_gitignore ex_utf8 ex_state_undecodable (str ''.gitignore'') = Inl UnicodeDecodeError
   \<and> write_files_to_output ex_utf8 (str ''.'') (str ''output.txt'') None None
        ex_state_undecodable = (Some UnicodeDecodeError, ex_state_undecodable)"
proof -
  have 1: "inode ex_env (str ''.gitignore'') \<noteq> inode ex_env (str ''output.txt'')"
    by (simp add: ex_world)
  have 2: "disk ex_state (inode ex_env (str ''output.txt'')) = Regular (map of_nat (str ''old''))"
    by (simp add: ex_world)
  have 3: "Absent \<noteq> Directory" by simp
  note t = output_file_truncated [of ex_env ex_state "str ''.''" "str ''output.txt''"
      "Some [str ''node_modules'']" "Some [str ''a.txt'']" Absent]
  note t3 = t [THEN conjunct2, THEN conjunct2, rule_format, OF ex_gitignore ex_open]
  from t3 3 1 have 4:
    "write_files_to_output ex_env (str ''.'') (str ''output.txt'') (Some [str ''node_modules''])
        (Some [str ''a.txt''])
        (ex_state\<lparr>disk := (disk ex_state)(inode ex_env (str ''output.txt'') := Absent)\<rparr>) =
      write_files_to_output ex_env (str ''.'') (str ''output.txt'') (Some [str ''node_modules''])
        (Some [str ''a.txt'']) ex_state"
    by blast
  from t3 have
    "disk (snd (write_files_to_output ex_env (str ''.'') (str ''output.txt'')
        (Some [str ''node_modules'']) (Some [str ''a.txt'']) ex_state))
        (inode ex_env (str ''output.txt'')) =
      Regular (encoded ex_env (written (snd (write_files_to_output ex_env (str ''.'')
        (str ''output.txt'') (Some [str ''node_modules'']) (Some [str ''a.txt'']) ex_state))))"
    and "encodable ex_env (written (snd (write_files_to_output ex_env (str ''.'')
        (str ''output.txt'') (Some [str ''node_modules'']) (Some [str ''a.txt'']) ex_state)))"
    by blast+
  then have 5: "disk (snd (write_files_to_output ex_env (str ''.'') (str ''output.txt'')
        (Some [str ''node_modules'']) (Some [str ''a.txt'']) ex_state))
        (inode ex_env (str ''output.txt'')) =
      Regular (encoded ex_env ex_text)"
    and 6: "encodable ex_env ex_text"
    unfolding ex_run by simp_all
  from output_file_truncated [of ex_utf8 ex_state_undecodable "str ''.''" "str ''output.txt''"
      None None Absent, THEN conjunct1, rule_format, OF ex_undecodable_gitignore]
  have 7: "write_files_to_output ex_utf8 (str ''.'') (str ''output.txt'') None None
        ex_state_undecodable = (Some UnicodeDecodeError, ex_state_undecodable)" .
  from ex_gitignore ex_open 1 2 4 5 6 7 ex_undecodable_gitignore show ?thesis by blast
qed

text \<open>
  C4 as the specification has it, for every run, fails when the ignore file
  cannot be read: under a UTF-8 locale, with an ignore file that holds the byte
  \<open>0xFF\<close>, the call ends with \<open>UnicodeDecodeError\<close> before the output file
  is opened, and \<open>output.txt\<close> still holds the three bytes of the run before.
\<close>

theorem output_kept_when_gitignore_unreadable:
  "disk ex_state_undecodable (inode ex_utf8 (str ''output.txt'')) =
     Regular (map of_nat (str ''old''))
   \<and> fst (write_files_to_output ex_utf8 (str ''.'') (str ''output.txt'') None None
        ex_state_undecodable) = Some UnicodeDecodeError
   \<and> disk (snd (write_files_to_output ex_utf8 (str ''.'') (str ''output.txt'') None None
        ex_state_undecodable)) (inode ex_utf8 (str ''output.txt'')) =
     Regular (map of_nat (str ''old''))"
  by (simp add: write_files_to_output_def ex_undecodable_gitignore ex_utf8_simps ex_state_simps
      ex_inode_simps ex_disk_simps)

section \<open>The order of the entries\<close>

lemma stopped_tail:
  "stopped E out s e p tail \<Longrightarrow> tail = [] \<or> tail = p @ [newline]"
  by (auto simp: stopped_def)

lemma ex_dot_match:
  "any_pattern_matches (str ''a.txt'') [str ''secret.txt'', str ''.*''] = False"
  "any_pattern_matches (str ''./a.txt'') [str ''secret.txt'', str ''.*''] = True"
  "any_pattern_matches (str ''./bad.bin'') [str ''secret.txt'', str ''.*''] = True"
  "any_pattern_matches (str ''./output.txt'') [str ''secret.txt'', str ''.*''] = True"
  "any_pattern_matches (str ''./secret.txt'') [str ''secret.txt'', str ''.*''] = True"
  "any_pattern_matches (str ''./node_modules'') [str ''secret.txt'', str ''.*''] = True"
  by (simp_all add: fnmatch_def translate_def str_def char_defs)

text \<open>
  A run in the small world with the pattern \<open>.*\<close> added and \<open>a.txt\<close> as
  the one wildcard file: every path of the walk starts with \<open>./\<close> and is
  excluded.
\<close>

lemma ex_dot_run:
  "write_files_to_output ex_env (str ''.'') (str ''output.txt'') (Some [str ''.*''])
     (Some [str ''a.txt'']) ex_state =
   (None,
    ex_state
      \<lparr>stdout := [str ''a.txt''],
       written := str ''a.txt'' @ [newline] @ str ''hi'' @ [newline, newline],
       disk := ex_disk(2 := Regular (encoded ex_env
                 (str ''a.txt'' @ [newline] @ str ''hi'' @ [newline, newline])))\<rparr>)"
proof -
  have "output_block ex_env [str ''secret.txt'', str ''.*''] (str ''output.txt'') [str ''a.txt'']
      (str ''.'') ex_state =
    (None,
     ex_state
      \<lparr>stdout := [str ''a.txt''],
       written := str ''a.txt'' @ [newline] @ str ''hi'' @ [newline, newline],
       disk := ex_disk(2 := Regular (encoded ex_env
                 (str ''a.txt'' @ [newline] @ str ''hi'' @ [newline, newline])))\<rparr>)"
    by (simp add: output_block_def ex_open ex_opened_def ex_tree_def ex_world ex_decode
        ex_dot_match ex_join ex_encodable encodable_simps(1,3) write_entry_def
        is_ignored_def out_write_def out_close_def
        read_file_contents_def read_text_def open_read_def cr_def Let_def
        del: any_pattern_matches.simps)
  then show ?thesis
    by (simp add: write_files_to_output_block [OF ex_gitignore] or_empty_simps)
qed

text \<open>
  C5, as the program has it. A run of the script that reads the ignore file and
  opens the output file writes its entries in this order: first those of the
  wildcard files whose path, as \<open>glob\<close> gave it, the filter lets through, in
  the order of the wildcard list (the expansions of the command-line patterns,
  one pattern after the other, each in the order \<open>glob\<close> gives, nothing
  removed); then those of the files of the walk whose path, the root joined with
  the path below it, the filter lets through. Each pass tests the path it has,
  so a file is written twice when both of its paths pass and no exception ends
  the run before. A run that an exception ends has written a beginning of that
  sequence and at most the path line of the file it stopped at; a run that
  cannot read the ignore file or open the output file writes nothing.
\<close>

theorem wildcard_entries_come_first:
  assumes "main E a s = (r, s')"
  shows
   "case read_gitignore E s (str ''.gitignore'') of
      Inl e \<Rightarrow> r = Some e \<and> s' = s
    | Inr lines \<Rightarrow>
        (case open_write E s (args_output a) of
           Inl e \<Rightarrow> r = Some e \<and> s' = s
         | Inr s0 \<Rightarrow>
             (\<exists>es tail.
                written s' = render es @ tail \<and>
                (case r of
                   None \<Rightarrow>
                     map fst es =
                       not_ignored (lines @ additional_patterns)
                         (concat (map (glob E) (wildcard_patterns a))) @
                       walk_paths (lines @ additional_patterns) (root_directory a)
                         (scandir_tree E (root_directory a))
                     \<and> tail = []
                 | Some e \<Rightarrow>
                     (\<exists>p rest.
                        not_ignored (lines @ additional_patterns)
                          (concat (map (glob E) (wildcard_patterns a))) @
                        walk_paths (lines @ additional_patterns) (root_directory a)
                          (scandir_tree E (root_directory a)) = map fst es @ p # rest
                        \<and> (tail = [] \<or> tail = p @ [newline])))))"
proof (cases "read_gitignore E s (str ''.gitignore'')")
  case (Inl e)
  with assms show ?thesis by (simp add: main_block)
next
  case g: (Inr lines)
  from assms g have b: "output_block E (lines @ additional_patterns) (args_output a)
      (concat (map (glob E) (wildcard_patterns a))) (root_directory a) s = (r, s')"
    by (simp add: main_block)
  show ?thesis
  proof (cases "open_write E s (args_output a)")
    case (Inl e)
    with b g show ?thesis by (simp add: output_block_def)
  next
    case o: (Inr s0)
    let ?P = "not_ignored (lines @ additional_patterns)
                (concat (map (glob E) (wildcard_patterns a))) @
              walk_paths (lines @ additional_patterns) (root_directory a)
                (scandir_tree E (root_directory a))"
    have w0: "written s0 = []" by (simp add: open_write_Inr [OF o])
    note spec = output_block_spec [OF o b, unfolded entry_paths_def]
    have "\<exists>es tail. written s' = render es @ tail \<and>
        (case r of
           None \<Rightarrow> map fst es = ?P \<and> tail = []
         | Some e \<Rightarrow> (\<exists>p rest. ?P = map fst es @ p # rest \<and> (tail = [] \<or> tail = p @ [newline])))"
    proof (cases r)
      case None
      with spec have "run_spec E (inode E (args_output a)) ?P s0 None s'" by simp
      then obtain es where "map fst es = ?P" "written s' = written s0 @ render es"
        by (rule run_spec_NoneE)
      with w0 have "written s' = render es @ [] \<and> map fst es = ?P \<and> ([]::pystr) = []" by simp
      then have "\<exists>tail. written s' = render es @ tail \<and> map fst es = ?P \<and> tail = []"
        by (rule exI)
      then show ?thesis unfolding None option.case by (rule exI)
    next
      case (Some e)
      with spec have "run_spec E (inode E (args_output a)) ?P s0 (Some e) s'" by simp
      then obtain es p rest tail where
        m: "?P = map fst es @ p # rest"
        and w: "written s' = written s0 @ render es @ tail"
        and st: "stopped E (inode E (args_output a)) s0 e p tail"
        by (rule run_spec_SomeE)
      from m stopped_tail [OF st]
      have "\<exists>p rest. ?P = map fst es @ p # rest \<and> (tail = [] \<or> tail = p @ [newline])"
        by blast
      with w w0 have "written s' = render es @ tail \<and>
          (\<exists>p rest. ?P = map fst es @ p # rest \<and> (tail = [] \<or> tail = p @ [newline]))"
        by simp
      then have "\<exists>tail. written s' = render es @ tail \<and>
          (\<exists>p rest. ?P = map fst es @ p # rest \<and> (tail = [] \<or> tail = p @ [newline]))"
        by (rule exI)
      then show ?thesis unfolding Some option.case by (rule exI)
    qed
    then show ?thesis unfolding g o sum.case .
  qed
qed

theorem wildcard_entries_come_first_witness:
  "main ex_env ex_args ex_state = (None, snd (main ex_env ex_args ex_state))
   \<and> read_gitignore ex_env ex_state (str ''.gitignore'') = Inr [str ''secret.txt'']
   \<and> open_write ex_env ex_state (args_output ex_args) = Inr ex_opened
   \<and> glob_loop ex_env [] (wildcard_patterns ex_args) = [str ''a.txt'']
   \<and> (\<exists>es. map fst es = [str ''a.txt'', str ''./a.txt'', str ''./bad.bin'', str ''./output.txt'']
         \<and> written (snd (main ex_env ex_args ex_state)) = render es)
   \<and> written (snd (main ex_env ex_args ex_state)) =
       render [(str ''a.txt'', str ''hi''), (str ''./a.txt'', str ''hi''),
               (str ''./bad.bin'', [255]), (str ''./output.txt'', [])]"
proof -
  have m: "main ex_env ex_args ex_state = (None, snd (main ex_env ex_args ex_state))"
    by (simp add: ex_main)
  have o: "open_write ex_env ex_state (args_output ex_args) = Inr ex_opened"
    by (simp add: ex_args_def ex_open)
  have gl: "glob_loop ex_env [] (wildcard_patterns ex_args) = [str ''a.txt'']"
    by (simp add: ex_args_def ex_world)
  have p: "not_ignored ([str ''secret.txt''] @ additional_patterns)
             (concat (map (glob ex_env) (wildcard_patterns ex_args))) @
           walk_paths ([str ''secret.txt''] @ additional_patterns) (root_directory ex_args)
             (scandir_tree ex_env (root_directory ex_args)) =
           [str ''a.txt'', str ''./a.txt'', str ''./bad.bin'', str ''./output.txt'']"
    by (simp add: ex_args_def ex_world ex_tree_def not_ignored_simps(1,2) ex_builtin_match ex_join
        del: any_pattern_matches.simps)
  from wildcard_entries_come_first [OF m]
  have "\<exists>es tail. written (snd (main ex_env ex_args ex_state)) = render es @ tail \<and>
          map fst es = [str ''a.txt'', str ''./a.txt'', str ''./bad.bin'', str ''./output.txt'']
          \<and> tail = []"
    unfolding ex_gitignore o sum.case option.case p .
  then obtain es tail where
    "written (snd (main ex_env ex_args ex_state)) = render es @ tail"
    "map fst es = [str ''a.txt'', str ''./a.txt'', str ''./bad.bin'', str ''./output.txt'']"
    "tail = []"
    by (elim exE conjE)
  then have "map fst es = [str ''a.txt'', str ''./a.txt'', str ''./bad.bin'',
          str ''./output.txt'']
         \<and> written (snd (main ex_env ex_args ex_state)) = render es"
    by simp
  then have e: "\<exists>es. map fst es = [str ''a.txt'', str ''./a.txt'', str ''./bad.bin'',
          str ''./output.txt'']
         \<and> written (snd (main ex_env ex_args ex_state)) = render es"
    by (rule exI)
  have w: "written (snd (main ex_env ex_args ex_state)) =
       render [(str ''a.txt'', str ''hi''), (str ''./a.txt'', str ''hi''),
               (str ''./bad.bin'', [255]), (str ''./output.txt'', [])]"
    by (simp add: ex_main ex_text_def render_simps)
  from m o gl e w ex_gitignore show ?thesis by blast
qed

text \<open>
  C5 as the specification has it, with every wildcard file that lies under the
  root and is not excluded written twice, fails in two ways. With the pattern
  \<open>.*\<close> among the patterns, the wildcard file \<open>a.txt\<close> is not excluded and
  lies in the root, where the walk finds it as \<open>./a.txt\<close>, a path the pattern
  matches: the run ends well and \<open>a.txt\<close> has one entry. And when the wildcard
  file after \<open>a.txt\<close> does not exist, the run ends there, before the walk:
  \<open>a.txt\<close>, which no pattern excludes under either path, has one entry.
\<close>

theorem wildcard_file_written_once:
  "\<not> fst (is_ignored (str ''a.txt'') [str ''secret.txt'', str ''.*''] [])
   \<and> join (str ''.'') (str ''a.txt'') = str ''./a.txt''
   \<and> inode ex_env (str ''./a.txt'') = inode ex_env (str ''a.txt'')
   \<and> fst (is_ignored (str ''./a.txt'') [str ''secret.txt'', str ''.*''] [])
   \<and> fst (write_files_to_output ex_env (str ''.'') (str ''output.txt'') (Some [str ''.*''])
            (Some [str ''a.txt'']) ex_state) = None
   \<and> written (snd (write_files_to_output ex_env (str ''.'') (str ''output.txt'')
            (Some [str ''.*'']) (Some [str ''a.txt'']) ex_state)) =
       render [(str ''a.txt'', str ''hi'')]
   \<and> \<not> fst (is_ignored (str ''a.txt'') [str ''secret.txt'', str ''node_modules''] [])
   \<and> \<not> fst (is_ignored (str ''./a.txt'') [str ''secret.txt'', str ''node_modules''] [])
   \<and> fst (write_files_to_output ex_env (str ''.'') (str ''output.txt'')
            (Some [str ''node_modules'']) (Some [str ''a.txt'', str ''missing.txt'']) ex_state) =
       Some (OSError ENOENT)
   \<and> written (snd (write_files_to_output ex_env (str ''.'') (str ''output.txt'')
            (Some [str ''node_modules'']) (Some [str ''a.txt'', str ''missing.txt'']) ex_state)) =
       render [(str ''a.txt'', str ''hi'')] @ str ''missing.txt'' @ [newline]"
  using ex_match [unfolded ex_pats_def]
  by (simp add: ex_dot_run ex_fail ex_partial_def render_simps is_ignored_def ex_dot_match ex_join
      ex_world del: any_pattern_matches.simps)

section \<open>The format of the output\<close>







section \<open>Reading the ignore file\<close>

lemma gitignore_loop_filter:
  "gitignore_loop patterns f =
     patterns @ filter (\<lambda>l. l \<noteq> [] \<and> \<not> startswith l (str ''#'')) (map strip f)"
  by (induction f arbitrary: patterns) (simp_all add: Let_def)

text \<open>
  C7, as the program has it. When the ignore file does not exist,
  \<open>read_gitignore\<close> returns the empty list and no error. When it exists, can be
  opened and its bytes can be decoded in the encoding of the locale, it returns
  the lines of that text, each stripped of leading and trailing whitespace,
  without those that are then empty or start with \<open>#\<close>, in the order of the
  file and otherwise as they are. When it exists and is a directory, or the
  open is refused, or its bytes cannot be decoded, the call raises the
  \<open>OSError\<close> or the \<open>UnicodeDecodeError\<close>: there is no second reading as
  in \<open>read_file_contents\<close>.
\<close>

theorem read_gitignore_lines:
  "read_gitignore E s gitignore_path =
     (case disk s (inode E gitignore_path) of
        Absent \<Rightarrow> Inr []
      | Directory \<Rightarrow> Inl (OSError EISDIR)
      | Regular bs \<Rightarrow>
          (case read_refused E (inode E gitignore_path) of
             Some errno \<Rightarrow> Inl (OSError errno)
           | None \<Rightarrow>
               (case locale_decode E bs of
                  None \<Rightarrow> Inl UnicodeDecodeError
                | Some t \<Rightarrow>
                    Inr (filter (\<lambda>l. l \<noteq> [] \<and> \<not> startswith l (str ''#''))
                           (map strip (file_lines (universal_newlines t)))))))"
  by (simp add: read_gitignore_def path_exists_def read_text_def open_read_def
      gitignore_loop_filter split: fobj.splits option.splits)

theorem read_gitignore_lines_witness:
  "disk ex_state (inode ex_env (str ''missing.txt'')) = Absent
   \<and> read_gitignore ex_env ex_state (str ''missing.txt'') = Inr []
   \<and> locale_decode ex_env
        (map of_nat (str ''# mine'' @ [cr, newline] @ str '' secret.txt '' @ [newline])) =
       Some (str ''# mine'' @ [cr, newline] @ str '' secret.txt '' @ [newline])
   \<and> file_lines (universal_newlines
        (str ''# mine'' @ [cr, newline] @ str '' secret.txt '' @ [newline])) =
       [str ''# mine'' @ [newline], str '' secret.txt '' @ [newline]]
   \<and> read_gitignore ex_env ex_state (str ''.gitignore'') = Inr [str ''secret.txt'']
   \<and> read_gitignore ex_env ex_state_dir (str ''.gitignore'') = Inl (OSError EISDIR)"
proof -
  have 1: "disk ex_state (inode ex_env (str ''missing.txt'')) = Absent"
    by (simp add: ex_world)
  have 2: "locale_decode ex_env
        (map of_nat (str ''# mine'' @ [cr, newline] @ str '' secret.txt '' @ [newline])) =
       Some (str ''# mine'' @ [cr, newline] @ str '' secret.txt '' @ [newline])"
    by (simp add: ex_world latin1_decode_def) (simp add: str_def char_defs unat_of_nat)
  have 3: "file_lines (universal_newlines
        (str ''# mine'' @ [cr, newline] @ str '' secret.txt '' @ [newline])) =
       [str ''# mine'' @ [newline], str '' secret.txt '' @ [newline]]"
    by (simp add: str_def char_defs)
  have 4: "filter (\<lambda>l. l \<noteq> [] \<and> \<not> startswith l (str ''#''))
       (map strip [str ''# mine'' @ [newline], str '' secret.txt '' @ [newline]])
       = [str ''secret.txt'']"
    by (simp add: str_def char_defs strip_def is_space_def startswith_def)
  from read_gitignore_lines [of ex_env ex_state "str ''missing.txt''"] 1
  have 5: "read_gitignore ex_env ex_state (str ''missing.txt'') = Inr []" by simp
  have d: "disk ex_state (inode ex_env (str ''.gitignore'')) =
      Regular (map of_nat (str ''# mine'' @ [cr, newline] @ str '' secret.txt '' @ [newline]))"
    and r: "read_refused ex_env (inode ex_env (str ''.gitignore'')) = None"
    by (simp_all add: ex_world)
  have 6: "read_gitignore ex_env ex_state (str ''.gitignore'') = Inr [str ''secret.txt'']"
    by (simp only: read_gitignore_lines [of ex_env ex_state "str ''.gitignore''"] d r 2 3 4
        fobj.case option.case)
  have e: "disk ex_state_dir (inode ex_env (str ''.gitignore'')) = Directory"
    by (simp add: ex_world)
  have 7: "read_gitignore ex_env ex_state_dir (str ''.gitignore'') = Inl (OSError EISDIR)"
    by (simp only: read_gitignore_lines [of ex_env ex_state_dir "str ''.gitignore''"] e
        fobj.case)
  from 1 2 3 5 6 7 show ?thesis by blast
qed

text \<open>
  C7 as the specification has it, with the lines returned whenever the file
  exists, fails for an ignore file that cannot be read. Under a UTF-8 locale,
  a file with the lines \<open>ok\<close> and the byte \<open>0xFF\<close> exists, and the call
  raises \<open>UnicodeDecodeError\<close>; and where the name \<open>.gitignore\<close> is a
  directory, the call raises \<open>OSError\<close>.
\<close>

theorem read_gitignore_raises:
  "path_exists ex_utf8 ex_state_undecodable (str ''.gitignore'')
   \<and> disk ex_state_undecodable (inode ex_utf8 (str ''.gitignore'')) =
       Regular [111, 107, 10, 255, 10]
   \<and> read_gitignore ex_utf8 ex_state_undecodable (str ''.gitignore'') = Inl UnicodeDecodeError
   \<and> path_exists ex_env ex_state_dir (str ''.gitignore'')
   \<and> read_gitignore ex_env ex_state_dir (str ''.gitignore'') = Inl (OSError EISDIR)"
  by (simp add: ex_undecodable_gitignore)
     (simp add: read_gitignore_def path_exists_def read_text_def open_read_def ex_utf8_simps
        ex_world)

section \<open>Where the patterns come from\<close>

text \<open>
  C8. Whatever the arguments of the command line, the script reads the patterns
  from the path \<open>.gitignore\<close>, which the system resolves from the current
  directory, puts the built-in list after them, and runs the block that writes
  the output with that one sequence: the wildcard files, the directories of the
  walk and its files are all filtered with it, so that the entries of the run
  are those of the paths this sequence lets through.
\<close>

theorem effective_patterns:
  "main E a s =
     (case read_gitignore E s (str ''.gitignore'') of
        Inl e \<Rightarrow> (Some e, s)
      | Inr lines \<Rightarrow>
          output_block E
            (lines @ map str
               [''.git'', ''.gitignore'', ''*.py'', ''*.lock'', ''*.lockb'', ''*.png'', ''*.jpg'',
                ''*.jpeg'', ''*.ico'', ''*.gif'', ''*.svg'', ''*.pdf'', ''*.doc'', ''*.docx'',
                ''*.sqlite*'', ''*.ppt'', ''*.pptx'', ''*-lock.json'', ''.devcontainer'',
                ''.vscode'', ''node_modules'', ''prisma/migrations'', ''.next''])
            (args_output a) (concat (map (glob E) (wildcard_patterns a))) (root_directory a) s)
   \<and> (\<forall>lines s0 r s'.
         read_gitignore E s (str ''.gitignore'') = Inr lines \<longrightarrow>
         open_write E s (args_output a) = Inr s0 \<longrightarrow>
         main E a s = (r, s') \<longrightarrow>
         run_spec E (inode E (args_output a))
           (not_ignored
              (lines @ map str
                 [''.git'', ''.gitignore'', ''*.py'', ''*.lock'', ''*.lockb'', ''*.png'', ''*.jpg'',
                  ''*.jpeg'', ''*.ico'', ''*.gif'', ''*.svg'', ''*.pdf'', ''*.doc'', ''*.docx'',
                  ''*.sqlite*'', ''*.ppt'', ''*.pptx'', ''*-lock.json'', ''.devcontainer'',
                  ''.vscode'', ''node_modules'', ''prisma/migrations'', ''.next''])
              (concat (map (glob E) (wildcard_patterns a))) @
            walk_paths
              (lines @ map str
                 [''.git'', ''.gitignore'', ''*.py'', ''*.lock'', ''*.lockb'', ''*.png'', ''*.jpg'',
                  ''*.jpeg'', ''*.ico'', ''*.gif'', ''*.svg'', ''*.pdf'', ''*.doc'', ''*.docx'',
                  ''*.sqlite*'', ''*.ppt'', ''*.pptx'', ''*-lock.json'', ''.devcontainer'',
                  ''.vscode'', ''node_modules'', ''prisma/migrations'', ''.next''])
              (root_directory a) (scandir_tree E (root_directory a)))
           s0 r s')"
proof (intro conjI allI impI)
  show "main E a s =
     (case read_gitignore E s (str ''.gitignore'') of
        Inl e \<Rightarrow> (Some e, s)
      | Inr lines \<Rightarrow>
          output_block E
            (lines @ map str
               [''.git'', ''.gitignore'', ''*.py'', ''*.lock'', ''*.lockb'', ''*.png'', ''*.jpg'',
                ''*.jpeg'', ''*.ico'', ''*.gif'', ''*.svg'', ''*.pdf'', ''*.doc'', ''*.docx'',
                ''*.sqlite*'', ''*.ppt'', ''*.pptx'', ''*-lock.json'', ''.devcontainer'',
                ''.vscode'', ''node_modules'', ''prisma/migrations'', ''.next''])
            (args_output a) (concat (map (glob E) (wildcard_patterns a))) (root_directory a) s)"
    unfolding main_block additional_patterns_def by (rule refl)
next
  fix lines s0 r s'
  assume g: "read_gitignore E s (str ''.gitignore'') = Inr lines"
    and o: "open_write E s (args_output a) = Inr s0"
    and m: "main E a s = (r, s')"
  from m g have b: "output_block E (lines @ additional_patterns) (args_output a)
      (concat (map (glob E) (wildcard_patterns a))) (root_directory a) s = (r, s')"
    by (simp add: main_block)
  from output_block_spec [OF o b]
  show "run_spec E (inode E (args_output a))
           (not_ignored
              (lines @ map str
                 [''.git'', ''.gitignore'', ''*.py'', ''*.lock'', ''*.lockb'', ''*.png'', ''*.jpg'',
                  ''*.jpeg'', ''*.ico'', ''*.gif'', ''*.svg'', ''*.pdf'', ''*.doc'', ''*.docx'',
                  ''*.sqlite*'', ''*.ppt'', ''*.pptx'', ''*-lock.json'', ''.devcontainer'',
                  ''.vscode'', ''node_modules'', ''prisma/migrations'', ''.next''])
              (concat (map (glob E) (wildcard_patterns a))) @
            walk_paths
              (lines @ map str
                 [''.git'', ''.gitignore'', ''*.py'', ''*.lock'', ''*.lockb'', ''*.png'', ''*.jpg'',
                  ''*.jpeg'', ''*.ico'', ''*.gif'', ''*.svg'', ''*.pdf'', ''*.doc'', ''*.docx'',
                  ''*.sqlite*'', ''*.ppt'', ''*.pptx'', ''*-lock.json'', ''.devcontainer'',
                  ''.vscode'', ''node_modules'', ''prisma/migrations'', ''.next''])
              (root_directory a) (scandir_tree E (root_directory a)))
           s0 r s'"
    unfolding entry_paths_def additional_patterns_def .
qed

theorem effective_patterns_witness:
  "read_gitignore ex_env ex_state (str ''.gitignore'') = Inr [str ''secret.txt'']
   \<and> main ex_env ex_args ex_state =
       output_block ex_env
         (str ''secret.txt'' # map str
            [''.git'', ''.gitignore'', ''*.py'', ''*.lock'', ''*.lockb'', ''*.png'', ''*.jpg'',
             ''*.jpeg'', ''*.ico'', ''*.gif'', ''*.svg'', ''*.pdf'', ''*.doc'', ''*.docx'',
             ''*.sqlite*'', ''*.ppt'', ''*.pptx'', ''*-lock.json'', ''.devcontainer'',
             ''.vscode'', ''node_modules'', ''prisma/migrations'', ''.next''])
         (str ''output.txt'') [str ''a.txt''] (str ''.'') ex_state
   \<and> open_write ex_env ex_state (args_output ex_args) = Inr ex_opened
   \<and> fst (main ex_env ex_args ex_state) = None
   \<and> run_spec ex_env (inode ex_env (args_output ex_args))
        [str ''a.txt'', str ''./a.txt'', str ''./bad.bin'', str ''./output.txt'']
        ex_opened None (snd (main ex_env ex_args ex_state))"
proof -
  note t = effective_patterns [of ex_env ex_args ex_state]
  have 1: "main ex_env ex_args ex_state =
       output_block ex_env
         (str ''secret.txt'' # map str
            [''.git'', ''.gitignore'', ''*.py'', ''*.lock'', ''*.lockb'', ''*.png'', ''*.jpg'',
             ''*.jpeg'', ''*.ico'', ''*.gif'', ''*.svg'', ''*.pdf'', ''*.doc'', ''*.docx'',
             ''*.sqlite*'', ''*.ppt'', ''*.pptx'', ''*-lock.json'', ''.devcontainer'',
             ''.vscode'', ''node_modules'', ''prisma/migrations'', ''.next''])
         (str ''output.txt'') [str ''a.txt''] (str ''.'') ex_state"
    using t [THEN conjunct1] by (simp add: ex_gitignore ex_args_def ex_world)
  have o: "open_write ex_env ex_state (args_output ex_args) = Inr ex_opened"
    by (simp add: ex_args_def ex_open)
  have m: "main ex_env ex_args ex_state = (None, snd (main ex_env ex_args ex_state))"
    by (simp add: ex_main)
  have p: "not_ignored ([str ''secret.txt''] @ additional_patterns)
             (concat (map (glob ex_env) (wildcard_patterns ex_args))) @
           walk_paths ([str ''secret.txt''] @ additional_patterns) (root_directory ex_args)
             (scandir_tree ex_env (root_directory ex_args)) =
           [str ''a.txt'', str ''./a.txt'', str ''./bad.bin'', str ''./output.txt'']"
    by (simp add: ex_args_def ex_world ex_tree_def not_ignored_simps(1,2) ex_builtin_match ex_join
        del: any_pattern_matches.simps)
  from t [THEN conjunct2, rule_format, OF ex_gitignore o m]
  have 2: "run_spec ex_env (inode ex_env (args_output ex_args))
        [str ''a.txt'', str ''./a.txt'', str ''./bad.bin'', str ''./output.txt'']
        ex_opened None (snd (main ex_env ex_args ex_state))"
    unfolding additional_patterns_def [symmetric] p .
  have 3: "fst (main ex_env ex_args ex_state) = None" by (simp add: ex_main)
  from ex_gitignore 1 o 3 2 show ?thesis by (intro conjI)
qed

section \<open>A read that fails\<close>




section \<open>The lists of the caller\<close>

text \<open>
  C10. A call of \<open>write_files_to_output\<close> leaves every list object that
  existed before the call as it was, the two it was given among them: the list
  it extends is the new one that \<open>read_gitignore\<close> returned. When the
  references it is given name list objects, what the call does is what the
  value version does on the lists they name.
\<close>

theorem arguments_not_mutated:
  assumes "write_files_to_output_refs E root_dir output_file additional_ref wildcard_ref H s =
             (res, H')"
  shows "take (length H) H' = H
     \<and> (\<forall>a. a < length H \<longrightarrow> H' ! a = H ! a)
     \<and> ((case additional_ref of None \<Rightarrow> True | Some a \<Rightarrow> a < length H) \<longrightarrow>
        (case wildcard_ref of None \<Rightarrow> True | Some b \<Rightarrow> b < length H) \<longrightarrow>
          res = write_files_to_output E root_dir output_file
                  (map_option ((!) H) additional_ref) (map_option ((!) H) wildcard_ref) s)"
proof (cases "read_gitignore E s (str ''.gitignore'')")
  case (Inl e)
  with assms show ?thesis
    by (cases additional_ref; cases wildcard_ref)
       (auto simp: write_files_to_output_refs_def write_files_to_output_def new_list_def
          nth_append)
next
  case (Inr lines)
  with assms show ?thesis
    by (cases additional_ref; cases wildcard_ref)
       (auto simp: write_files_to_output_refs_def write_files_to_output_def new_list_def
          list_extend_def nth_append or_empty_def nth_list_update)
qed

theorem arguments_not_mutated_witness:
  "snd (write_files_to_output_refs ex_env (str ''.'') (str ''output.txt'') (Some 0) (Some 1)
          [[str ''node_modules''], [str ''a.txt'']] ex_state) =
     [[str ''node_modules''], [str ''a.txt''], [str ''secret.txt'', str ''node_modules'']]
   \<and> take (length [[str ''node_modules''], [str ''a.txt'']])
        (snd (write_files_to_output_refs ex_env (str ''.'') (str ''output.txt'') (Some 0)
          (Some 1) [[str ''node_modules''], [str ''a.txt'']] ex_state)) =
     [[str ''node_modules''], [str ''a.txt'']]
   \<and> fst (write_files_to_output_refs ex_env (str ''.'') (str ''output.txt'') (Some 0) (Some 1)
          [[str ''node_modules''], [str ''a.txt'']] ex_state) =
     write_files_to_output ex_env (str ''.'') (str ''output.txt'') (Some [str ''node_modules''])
       (Some [str ''a.txt'']) ex_state"
proof -
  let ?H = "[[str ''node_modules''], [str ''a.txt'']]"
  let ?c = "write_files_to_output_refs ex_env (str ''.'') (str ''output.txt'') (Some 0) (Some 1)
          ?H ex_state"
  have h: "?c = (fst ?c, snd ?c)" by simp
  note t = arguments_not_mutated [OF h]
  have k: "take (length ?H) (snd ?c) = ?H" by (rule t [THEN conjunct1])
  have "fst ?c = write_files_to_output ex_env (str ''.'') (str ''output.txt'')
       (map_option ((!) ?H) (Some 0)) (map_option ((!) ?H) (Some 1)) ex_state"
    by (rule t [THEN conjunct2, THEN conjunct2, rule_format]) simp_all
  then have f: "fst ?c = write_files_to_output ex_env (str ''.'') (str ''output.txt'')
       (Some [str ''node_modules'']) (Some [str ''a.txt'']) ex_state"
    by simp
  have s: "snd ?c = [[str ''node_modules''], [str ''a.txt''], [str ''secret.txt'', str ''node_modules'']]"
    by (simp add: write_files_to_output_refs_def ex_gitignore new_list_def list_extend_def)
  from s k f show ?thesis by (intro conjI)
qed

end
